theory Spec2Isabelle
  imports Complex_Main "HOL-Library.AList" "HOL-Library.Log_Nat"
begin

section \<open>Smart Melody Tokenizer: a shallow embedding\<close>

text \<open>
  The Python sources \<^verbatim>\<open>smt/utils/midi_utils.py\<close>, \<^verbatim>\<open>smt/core/vocabulary.py\<close>,
  \<^verbatim>\<open>smt/core/tokenizer.py\<close> and \<^verbatim>\<open>smt/patterns/detector.py\<close> are embedded as HOL
  functions. Conventions:
  \<^item> a Python \<^verbatim>\<open>float\<close> is an IEEE double. A beat position is the \<^typ>\<open>real\<close> number the
    double denotes, and every arithmetic operation of \<^verbatim>\<open>midi_utils.py\<close> and
    \<^verbatim>\<open>tokenizer.py\<close> on floats is the exact operation followed by \<open>fl\<close>, rounding to
    the nearest double (a tie to the even mantissa, 53 bits, subnormal below
    \<open>2 powi - 1022\<close>). A literal such as \<^verbatim>\<open>0.1\<close> is \<open>fl (1 / 10)\<close>. Results of magnitude
    \<open>2 ^ 1024\<close> and beyond (Python: \<^verbatim>\<open>inf\<close>, \<^verbatim>\<open>OverflowError\<close>), NaN and the sign of zero
    are not modelled. The confidences of \<^verbatim>\<open>detector.py\<close> are computed in exact real
    arithmetic: they decide nothing but the order in which overlapping patterns are kept;
  \<^item> Python \<^verbatim>\<open>int\<close> is \<^typ>\<open>int\<close>; a \<^verbatim>\<open>str\<close> is a \<^typ>\<open>string\<close> of one-byte characters;
  \<^item> a raised exception is a value \<open>Inl e\<close> of the sum type \<open>py_error + 'a\<close>;
  \<^item> a \<^verbatim>\<open>while\<close> loop whose termination depends on its arguments is a
    \<^theory_text>\<open>partial_function (option)\<close>: \<open>None\<close> means the loop runs forever;
  \<^item> a \<^verbatim>\<open>dict\<close> whose iteration order matters is an association list, updated
    with \<^const>\<open>AList.update\<close> (an existing key keeps its position, a new key goes last).
\<close>

subsection \<open>Python built-ins\<close>

datatype py_error = ZeroDivisionError | IndexError | ValueError | KeyError

text \<open>\<^verbatim>\<open>round(x)\<close> on a float: to the nearest integer, a tie to the even one.\<close>

definition py_round :: "real \<Rightarrow> int" where
  "py_round x =
     (let f = \<lfloor>x\<rfloor>; d = x - of_int f
      in if d < 1 / 2 then f
         else if 1 / 2 < d then f + 1
         else if even f then f else f + 1)"

text \<open>
  Rounding a real number to the nearest double. \<open>float_exponent x\<close> is the binary exponent
  of \<open>x\<close>, not below that of the smallest normal double; \<open>ulp x\<close> is the distance between
  neighbouring doubles at that exponent; \<open>fl x\<close> is the multiple of \<open>ulp x\<close> nearest to
  \<open>x\<close>, a tie going to the even multiple.
\<close>

definition float_exponent :: "real \<Rightarrow> int" where
  "float_exponent x = max \<lfloor>log 2 \<bar>x\<bar>\<rfloor> (- 1022)"

definition ulp :: "real \<Rightarrow> real" where
  "ulp x = 2 powi (float_exponent x - 52)"

definition fl :: "real \<Rightarrow> real" where
  "fl x = of_int (py_round (x / ulp x)) * ulp x"

text \<open>\<^verbatim>\<open>min(xs, key=f)\<close> on a non-empty list: the first element whose key is least.\<close>

fun py_min_key :: "('a \<Rightarrow> real) \<Rightarrow> 'a list \<Rightarrow> 'a" where
  "py_min_key f (x # xs) = foldl (\<lambda>best y. if f y < f best then y else best) x xs"

text \<open>\<^verbatim>\<open>s.split(c)\<close> for a one-character separator, and \<^verbatim>\<open>c.join(parts)\<close>.\<close>

fun split :: "char \<Rightarrow> string \<Rightarrow> string list" where
  "split c [] = [[]]"
| "split c (x # xs) =
     (if x = c then [] # split c xs
      else (case split c xs of
              w # ws \<Rightarrow> (x # w) # ws
            | [] \<Rightarrow> [[x]]))"

fun join :: "string \<Rightarrow> string list \<Rightarrow> string" where
  "join sep [] = []"
| "join sep [w] = w"
| "join sep (w # v # ws) = w @ sep @ join sep (v # ws)"

definition startswith :: "string \<Rightarrow> string \<Rightarrow> bool" where
  "startswith s p = (take (length p) s = p)"

text \<open>\<^verbatim>\<open>s.replace(a, b)\<close> for one-character \<open>a\<close>.\<close>

definition replace :: "char \<Rightarrow> string \<Rightarrow> string \<Rightarrow> string" where
  "replace a b s = concat (map (\<lambda>c. if c = a then b else [c]) s)"

text \<open>\<^verbatim>\<open>s.upper()\<close>, on ASCII letters.\<close>

definition upper_char :: "char \<Rightarrow> char" where
  "upper_char c =
     (case map_of (zip ''abcdefghijklmnopqrstuvwxyz'' ''ABCDEFGHIJKLMNOPQRSTUVWXYZ'') c of
        Some u \<Rightarrow> u
      | None \<Rightarrow> c)"

definition upper :: "string \<Rightarrow> string" where
  "upper s = map upper_char s"

text \<open>\<^verbatim>\<open>str(n)\<close> for an integer, as an f-string renders it.\<close>

fun str_nat :: "nat \<Rightarrow> string" where
  "str_nat n =
     (if n < 10 then [''0123456789'' ! n]
      else str_nat (n div 10) @ [''0123456789'' ! (n mod 10)])"

definition str_int :: "int \<Rightarrow> string" where
  "str_int i = (if i < 0 then CHR ''-'' # str_nat (nat (- i)) else str_nat (nat i))"

text \<open>\<^verbatim>\<open>int(c)\<close> for a one-character string: a decimal digit, else \<^verbatim>\<open>ValueError\<close>.\<close>

definition py_int_char :: "char \<Rightarrow> py_error + int" where
  "py_int_char c =
     (case map_of (zip ''0123456789'' [0, 1, 2, 3, 4, 5, 6, 7, 8, 9]) c of
        Some v \<Rightarrow> Inr v
      | None \<Rightarrow> Inl ValueError)"

text \<open>
  \<^verbatim>\<open>xs[i:j]\<close> for integers \<open>i\<close>, \<open>j\<close>: a negative index counts from the end, and both
  are clamped to the list.
\<close>

definition py_slice_index :: "nat \<Rightarrow> int \<Rightarrow> nat" where
  "py_slice_index n i = nat (if i < 0 then max 0 (int n + i) else min i (int n))"

definition py_slice :: "'a list \<Rightarrow> int \<Rightarrow> int \<Rightarrow> 'a list" where
  "py_slice xs i j =
     (let a = py_slice_index (length xs) i; b = py_slice_index (length xs) j
      in take (b - a) (drop a xs))"

text \<open>\<^verbatim>\<open>range(n)\<close> and \<^verbatim>\<open>range(a, b)\<close>.\<close>

definition range2 :: "int \<Rightarrow> int \<Rightarrow> int list" where
  "range2 a b = [a..b - 1]"

definition range1 :: "int \<Rightarrow> int list" where
  "range1 n = range2 0 n"

subsection \<open>\<^verbatim>\<open>midi_utils.py\<close>: notes and the MIDI processor\<close>

record SMTNote =
  pitch :: int
  start_time :: real
  end_time :: real
  velocity :: int
  pitch_name :: string
  duration_name :: string
  dynamic_name :: string

text \<open>\<^verbatim>\<open>MIDIProcessor.quantization_grid\<close>, set by the constructor.\<close>

definition processor_quantization_grid :: int where
  "processor_quantization_grid = 16"

text \<open>The table of \<^verbatim>\<open>_beats_to_duration_name\<close>, in the order the dictionary is written.\<close>

definition beats_duration_map :: "(real \<times> string) list" where
  "beats_duration_map =
     [(1 / 4, ''sixteenth''), (3 / 8, ''dotted_sixteenth''), (1 / 2, ''eighth''),
      (3 / 4, ''dotted_eighth''), (1, ''quarter''), (3 / 2, ''dotted_quarter''),
      (2, ''half''), (3, ''dotted_half''), (4, ''whole'')]"

definition beats_to_duration_name :: "real \<Rightarrow> string" where
  "beats_to_duration_name duration_beats =
     (let closest_duration =
            py_min_key (\<lambda>x. \<bar>fl (x - duration_beats)\<bar>) (map fst beats_duration_map)
      in if \<bar>fl (duration_beats - closest_duration)\<bar> < fl (1 / 10)
         then the (map_of beats_duration_map closest_duration)
         else ''quarter'')"

text \<open>
  The loop body of \<^verbatim>\<open>quantize_notes\<close>. \<^verbatim>\<open>round\<close> returns an \<^verbatim>\<open>int\<close>, which the
  multiplication by the float grid unit converts back to a float.
\<close>

definition quantize_note :: "real \<Rightarrow> SMTNote \<Rightarrow> SMTNote" where
  "quantize_note beat_subdivision note =
     (let quantized_start =
            fl (fl (of_int (py_round (fl (start_time note / beat_subdivision))))
                * beat_subdivision);
          original_duration = fl (end_time note - start_time note);
          quantized_duration =
            max (fl (fl (of_int (py_round (fl (original_duration / beat_subdivision))))
                     * beat_subdivision))
                beat_subdivision
      in \<lparr>pitch = pitch note,
          start_time = quantized_start,
          end_time = fl (quantized_start + quantized_duration),
          velocity = velocity note,
          pitch_name = pitch_name note,
          duration_name = beats_to_duration_name quantized_duration,
          dynamic_name = dynamic_name note\<rparr>)"

text \<open>
  \<^verbatim>\<open>quantize_notes(notes, grid=None)\<close>. The grid unit \<^verbatim>\<open>1.0 / (grid / 4)\<close>, two float
  divisions, is computed before the loop, so a zero grid raises whatever the notes are.
\<close>

definition grid_unit :: "int \<Rightarrow> real" where
  "grid_unit grid = fl (1 / fl (of_int grid / 4))"

definition quantize_notes :: "SMTNote list \<Rightarrow> int option \<Rightarrow> py_error + SMTNote list" where
  "quantize_notes ns grid_arg =
     (let grid = (case grid_arg of None \<Rightarrow> processor_quantization_grid | Some g \<Rightarrow> g)
      in if grid = 0 then Inl ZeroDivisionError
         else Inr (map (quantize_note (grid_unit grid)) ns))"

definition note_names :: "string list" where
  "note_names = [''C'', ''C#'', ''D'', ''D#'', ''E'', ''F'', ''F#'', ''G'', ''G#'', ''A'', ''A#'', ''B'']"

definition midi_to_pitch_name :: "int \<Rightarrow> string" where
  "midi_to_pitch_name midi_pitch =
     (let octave = midi_pitch div 12 - 1;
          note = note_names ! nat (midi_pitch mod 12)
      in note @ str_int octave)"

definition note_map :: "(string \<times> int) list" where
  "note_map =
     [(''C'', 0), (''C#'', 1), (''D'', 2), (''D#'', 3), (''E'', 4), (''F'', 5),
      (''F#'', 6), (''G'', 7), (''G#'', 8), (''A'', 9), (''A#'', 10), (''B'', 11)]"

text \<open>
  \<^verbatim>\<open>_pitch_name_to_midi\<close>: the octave is the last character alone; \<^verbatim>\<open>pitch_name[-1]\<close>
  raises on the empty string, \<^verbatim>\<open>int\<close> on a non-digit, \<^verbatim>\<open>note_map[note]\<close> on an unknown
  note name.
\<close>

definition pitch_name_to_midi :: "string \<Rightarrow> py_error + int" where
  "pitch_name_to_midi pn =
     (let note = (if CHR ''#'' \<in> set pn then butlast pn
                  else if CHR ''s'' \<in> set pn then butlast (butlast pn) @ ''#''
                  else butlast pn)
      in if pn = [] then Inl IndexError
         else (case py_int_char (last pn) of
                 Inl e \<Rightarrow> Inl e
               | Inr octave \<Rightarrow>
                   (case map_of note_map note of
                      None \<Rightarrow> Inl KeyError
                    | Some v \<Rightarrow> Inr ((octave + 1) * 12 + v))))"

definition velocity_to_dynamic :: "int \<Rightarrow> string" where
  "velocity_to_dynamic v =
     (if v < 20 then ''pp''
      else if v < 40 then ''p''
      else if v < 60 then ''mp''
      else if v < 80 then ''mf''
      else if v < 100 then ''f''
      else ''ff'')"

definition dynamic_map :: "(string \<times> int) list" where
  "dynamic_map = [(''pp'', 25), (''p'', 35), (''mp'', 50), (''mf'', 65), (''f'', 85), (''ff'', 100)]"

definition dynamic_to_velocity :: "string \<Rightarrow> int" where
  "dynamic_to_velocity dynamic = (case map_of dynamic_map dynamic of Some v \<Rightarrow> v | None \<Rightarrow> 65)"

subsection \<open>\<^verbatim>\<open>vocabulary.py\<close>: the vocabulary\<close>

text \<open>
  The configuration dictionary. A key read with \<^verbatim>\<open>config.get(key, default)\<close> may be
  absent and is an \<open>option\<close>; a key read with \<^verbatim>\<open>config[key]\<close> is a plain field. The
  \<^verbatim>\<open>patterns\<close> dictionary is a list of (category, labels) in insertion order.
\<close>

record pitch_range_config =
  min_octave :: int
  max_octave :: int
  include_accidentals :: "bool option"

record vocab_config =
  pitch_range :: pitch_range_config
  durations :: "string list"
  dynamics :: "string list"
  patterns :: "(string \<times> string list) list option"
  structural :: "string list"
  max_vocab_size :: "int option"

record SMTVocabulary =
  config :: vocab_config
  vocab :: "string list"
  token_to_id :: "(string \<times> int) list"
  id_to_token :: "(int \<times> string) list"

definition default_config :: vocab_config where
  "default_config =
     \<lparr>pitch_range = \<lparr>min_octave = 3, max_octave = 6, include_accidentals = Some True\<rparr>,
      durations = [''sixteenth'', ''eighth'', ''quarter'', ''half'', ''whole'',
                   ''dotted_quarter'', ''dotted_half''],
      dynamics = [''pp'', ''p'', ''mp'', ''mf'', ''f'', ''ff''],
      patterns = Some
        [(''scales'', [''scale_up'', ''scale_down'', ''chromatic_up'', ''chromatic_down'']),
         (''intervals'', [''step'', ''skip'', ''leap'', ''octave'']),
         (''arpeggios'', [''arpeggio_major'', ''arpeggio_minor'', ''arpeggio_dim'', ''arpeggio_aug'']),
         (''rhythmic'', [''syncopated'', ''steady'', ''accelerando'', ''ritardando''])],
      structural = [''phrase_start'', ''phrase_end'', ''motif_repeat'', ''sequence''],
      max_vocab_size = Some 2000\<rparr>"

definition special_tokens :: "string list" where
  "special_tokens = [''[PAD]'', ''[BOS]'', ''[EOS]'', ''[MASK]'', ''[UNK]'', ''[SEP]'']"

definition add_special_tokens :: "string list \<Rightarrow> string list" where
  "add_special_tokens v = v @ special_tokens"

definition structural_tokens :: "string list" where
  "structural_tokens =
     [''BAR'', ''PHRASE_START'', ''PHRASE_END'', ''SECTION_A'', ''SECTION_B'',
      ''VERSE'', ''CHORUS'', ''BRIDGE'']"

definition add_structural_tokens :: "string list \<Rightarrow> string list" where
  "add_structural_tokens v = v @ structural_tokens"

definition get_pitch_names :: "vocab_config \<Rightarrow> string list" where
  "get_pitch_names cfg =
     (let names =
            (if (case include_accidentals (pitch_range cfg) of None \<Rightarrow> True | Some b \<Rightarrow> b)
             then [''C'', ''C#'', ''D'', ''D#'', ''E'', ''F'', ''F#'', ''G'', ''G#'', ''A'', ''A#'', ''B'']
             else [''C'', ''D'', ''E'', ''F'', ''G'', ''A'', ''B''])
      in concat (map (\<lambda>octave. map (\<lambda>note. note @ str_int octave) names)
                     (range2 (min_octave (pitch_range cfg)) (max_octave (pitch_range cfg) + 1))))"

definition note_token :: "string \<Rightarrow> string \<Rightarrow> string \<Rightarrow> string" where
  "note_token p d y = ''NOTE_'' @ p @ ''_'' @ d @ ''_'' @ y"

text \<open>One pass of the innermost loop body of \<^verbatim>\<open>_add_note_tokens\<close>, on (vocab, note_count).\<close>

definition add_note_step ::
  "int \<Rightarrow> string \<Rightarrow> string \<Rightarrow> string \<Rightarrow> string list \<times> int \<Rightarrow> string list \<times> int" where
  "add_note_step limit p d y st =
     (if snd st < limit then (fst st @ [note_token p d y], snd st + 1) else st)"

definition add_note_tokens :: "vocab_config \<Rightarrow> string list \<Rightarrow> string list" where
  "add_note_tokens cfg v =
     (let limit = (case max_vocab_size cfg of None \<Rightarrow> 2000 | Some m \<Rightarrow> m) - 200
      in fst (fold (\<lambda>p. fold (\<lambda>d. fold (\<lambda>y. add_note_step limit p d y) (dynamics cfg))
                                (durations cfg))
                   (get_pitch_names cfg) (v, 0)))"

definition add_rest_tokens :: "vocab_config \<Rightarrow> string list \<Rightarrow> string list" where
  "add_rest_tokens cfg v =
     fold (\<lambda>d acc. acc @ [''REST_'' @ replace CHR ''.'' ''_'' d]) (durations cfg) v"

definition add_pattern_tokens :: "vocab_config \<Rightarrow> string list \<Rightarrow> string list" where
  "add_pattern_tokens cfg v =
     fold (\<lambda>entry. fold (\<lambda>p acc. acc @ [''PATTERN_'' @ upper p]) (snd entry))
          (case patterns cfg of None \<Rightarrow> [] | Some ps \<Rightarrow> ps) v"

definition control_tokens :: "string list" where
  "control_tokens =
     [''TEMPO_SLOW'', ''TEMPO_MEDIUM'', ''TEMPO_FAST'', ''TEMPO_VERY_FAST'',
      ''KEY_C_MAJOR'', ''KEY_G_MAJOR'', ''KEY_D_MAJOR'', ''KEY_A_MAJOR'',
      ''KEY_F_MAJOR'', ''KEY_BB_MAJOR'', ''KEY_A_MINOR'', ''KEY_E_MINOR'',
      ''TIME_4_4'', ''TIME_3_4'', ''TIME_2_4'', ''TIME_6_8'',
      ''STYLE_LEGATO'', ''STYLE_STACCATO'', ''STYLE_MARCATO'',
      ''ACCENT'', ''TENUTO'', ''SLUR_START'', ''SLUR_END'']"

definition add_control_tokens :: "string list \<Rightarrow> string list" where
  "add_control_tokens v = v @ control_tokens"

text \<open>\<^verbatim>\<open>enumerate(xs)\<close>, and the two dictionary comprehensions of \<^verbatim>\<open>_build_mappings\<close>.\<close>

definition py_enumerate :: "'a list \<Rightarrow> (int \<times> 'a) list" where
  "py_enumerate xs = zip (map int [0..<length xs]) xs"

definition build_token_to_id :: "string list \<Rightarrow> (string \<times> int) list" where
  "build_token_to_id v = fold (\<lambda>(idx, token). AList.update token idx) (py_enumerate v) []"

definition build_id_to_token :: "(string \<times> int) list \<Rightarrow> (int \<times> string) list" where
  "build_id_to_token t2i = fold (\<lambda>(token, idx). AList.update idx token) t2i []"

definition build_vocab_list :: "vocab_config \<Rightarrow> string list" where
  "build_vocab_list cfg =
     add_control_tokens
       (add_pattern_tokens cfg
         (add_rest_tokens cfg
           (add_note_tokens cfg
             (add_structural_tokens
               (add_special_tokens [])))))"

definition build_vocabulary :: "vocab_config \<Rightarrow> SMTVocabulary" where
  "build_vocabulary cfg =
     (let v = build_vocab_list cfg; t2i = build_token_to_id v
      in \<lparr>config = cfg, vocab = v, token_to_id = t2i, id_to_token = build_id_to_token t2i\<rparr>)"

text \<open>The constructor: \<^verbatim>\<open>config or self._default_config()\<close>, then the build.\<close>

definition new_vocabulary :: "vocab_config option \<Rightarrow> SMTVocabulary" where
  "new_vocabulary cfg =
     build_vocabulary (case cfg of None \<Rightarrow> default_config | Some c \<Rightarrow> c)"

text \<open>
  \<^verbatim>\<open>token_to_id.get(token, token_to_id["[UNK]"])\<close>: the default is evaluated first, so a
  map without \<^verbatim>\<open>[UNK]\<close> raises for every token.
\<close>

definition encode_token :: "SMTVocabulary \<Rightarrow> string \<Rightarrow> py_error + int" where
  "encode_token V token =
     (case map_of (token_to_id V) ''[UNK]'' of
        None \<Rightarrow> Inl KeyError
      | Some unk \<Rightarrow> Inr (case map_of (token_to_id V) token of Some i \<Rightarrow> i | None \<Rightarrow> unk))"

definition decode_token :: "SMTVocabulary \<Rightarrow> int \<Rightarrow> string" where
  "decode_token V token_id =
     (case map_of (id_to_token V) token_id of Some t \<Rightarrow> t | None \<Rightarrow> ''[UNK]'')"

fun encode_tokens :: "SMTVocabulary \<Rightarrow> string list \<Rightarrow> py_error + int list" where
  "encode_tokens V [] = Inr []"
| "encode_tokens V (t # ts) =
     (case encode_token V t of
        Inl e \<Rightarrow> Inl e
      | Inr i \<Rightarrow> (case encode_tokens V ts of Inl e \<Rightarrow> Inl e | Inr is \<Rightarrow> Inr (i # is)))"

definition vocab_decode_tokens :: "SMTVocabulary \<Rightarrow> int list \<Rightarrow> string list" where
  "vocab_decode_tokens V token_ids = map (decode_token V) token_ids"

definition vocab_size :: "SMTVocabulary \<Rightarrow> nat" where
  "vocab_size V = length (vocab V)"

subsection \<open>\<^verbatim>\<open>tokenizer.py\<close>: encoding and decoding\<close>

record midi_config =
  quantization_grid :: int
  min_rest_duration :: real
  max_bars :: int
  beats_per_bar :: real

definition default_midi_config :: midi_config where
  "default_midi_config =
     \<lparr>quantization_grid = 16, min_rest_duration = 1 / 4, max_bars = 32, beats_per_bar = 4\<rparr>"

record SmartMelodyTokenizer =
  vocabulary :: SMTVocabulary
  midi_cfg :: midi_config

definition new_tokenizer :: "vocab_config option \<Rightarrow> midi_config option \<Rightarrow> SmartMelodyTokenizer" where
  "new_tokenizer vocab_cfg midi_arg =
     \<lparr>vocabulary = new_vocabulary vocab_cfg,
      midi_cfg = (case midi_arg of None \<Rightarrow> default_midi_config | Some c \<Rightarrow> c)\<rparr>"

definition name_duration_map :: "(string \<times> real) list" where
  "name_duration_map =
     [(''sixteenth'', 1 / 4), (''dotted_sixteenth'', 3 / 8), (''eighth'', 1 / 2),
      (''dotted_eighth'', 3 / 4), (''quarter'', 1), (''dotted_quarter'', 3 / 2),
      (''half'', 2), (''dotted_half'', 3), (''whole'', 4)]"

definition duration_name_to_beats :: "string \<Rightarrow> real" where
  "duration_name_to_beats dn = (case map_of name_duration_map dn of Some b \<Rightarrow> b | None \<Rightarrow> 1)"

definition create_note_token :: "SMTNote \<Rightarrow> string" where
  "create_note_token note =
     ''NOTE_'' @ pitch_name note @ ''_'' @ duration_name note @ ''_'' @ dynamic_name note"

definition create_rest_token :: "real \<Rightarrow> string" where
  "create_rest_token duration_beats = ''REST_'' @ beats_to_duration_name duration_beats"

text \<open>
  \<^verbatim>\<open>_parse_note_token\<close>: every exception of the body is caught and turned into \<^verbatim>\<open>None\<close>;
  only \<^verbatim>\<open>_pitch_name_to_midi\<close> can raise.
\<close>

definition parse_note_token :: "string \<Rightarrow> real \<Rightarrow> SMTNote option" where
  "parse_note_token token start =
     (let parts = split CHR ''_'' token
      in if length parts \<noteq> 4 \<or> parts ! 0 \<noteq> ''NOTE'' then None
         else (case pitch_name_to_midi (parts ! 1) of
                 Inl e \<Rightarrow> None
               | Inr p \<Rightarrow>
                   Some \<lparr>pitch = p,
                         start_time = start,
                         end_time = fl (start + duration_name_to_beats (parts ! 2)),
                         velocity = dynamic_to_velocity (parts ! 3),
                         pitch_name = parts ! 1,
                         duration_name = parts ! 2,
                         dynamic_name = parts ! 3\<rparr>))"

definition parse_duration_from_token :: "string \<Rightarrow> real" where
  "parse_duration_from_token token =
     (let parts = split CHR ''_'' token
      in if 2 \<le> length parts then duration_name_to_beats (join ''_'' (tl parts))
         else 1 / 4)"

text \<open>The loop of \<^verbatim>\<open>_tokens_to_notes\<close> on (notes, current_time, current_bar).\<close>

fun tokens_loop :: "real \<Rightarrow> string list \<Rightarrow> SMTNote list \<Rightarrow> real \<Rightarrow> int \<Rightarrow> SMTNote list" where
  "tokens_loop bpb [] ns current_time current_bar = ns"
| "tokens_loop bpb (token # rest) ns current_time current_bar =
     (if token \<in> set [''[BOS]'', ''[EOS]'', ''[PAD]'']
        then tokens_loop bpb rest ns current_time current_bar
      else if token = ''BAR''
        then tokens_loop bpb rest ns (fl (fl (of_int (current_bar + 1)) * bpb)) (current_bar + 1)
      else if startswith token ''REST_''
        then tokens_loop bpb rest ns (fl (current_time + parse_duration_from_token token))
               current_bar
      else if startswith token ''NOTE_''
        then (case parse_note_token token current_time of
                Some note \<Rightarrow> tokens_loop bpb rest (ns @ [note]) (end_time note) current_bar
              | None \<Rightarrow> tokens_loop bpb rest ns current_time current_bar)
      else if startswith token ''PATTERN_''
        then tokens_loop bpb rest ns current_time current_bar
      else tokens_loop bpb rest ns current_time current_bar)"

definition tokens_to_notes :: "SmartMelodyTokenizer \<Rightarrow> string list \<Rightarrow> SMTNote list" where
  "tokens_to_notes T tokens = tokens_loop (beats_per_bar (midi_cfg T)) tokens [] 0 0"

text \<open>
  \<^verbatim>\<open>decode_tokens\<close> without an output file: a list of ids goes through the vocabulary
  first.
\<close>

definition decode_tokens :: "SmartMelodyTokenizer \<Rightarrow> string list + int list \<Rightarrow> SMTNote list" where
  "decode_tokens T tokens =
     tokens_to_notes T
       (case tokens of
          Inl strs \<Rightarrow> strs
        | Inr ids \<Rightarrow> vocab_decode_tokens (vocabulary T) ids)"

text \<open>
  The bar loop of \<^verbatim>\<open>_notes_to_tokens\<close>, on (tokens, current_bar_start). It does not end
  when the note starts at or after the bar start and adding \<^verbatim>\<open>beats_per_bar\<close> does not
  move the bar start forward: when \<^verbatim>\<open>beats_per_bar\<close> is not positive, or is lost in the
  rounding of the sum.
\<close>

partial_function (option) bar_loop ::
  "real \<Rightarrow> real \<Rightarrow> string list \<Rightarrow> real \<Rightarrow> (string list \<times> real) option" where
  "bar_loop bpb start tokens current_bar_start =
     (if fl (current_bar_start + bpb) \<le> start
      then bar_loop bpb start (tokens @ [''BAR'']) (fl (current_bar_start + bpb))
      else Some (tokens, current_bar_start))"

declare bar_loop.simps [code]

fun notes_loop ::
  "real \<Rightarrow> SMTNote list \<Rightarrow> string list \<Rightarrow> real \<Rightarrow> real \<Rightarrow> string list option" where
  "notes_loop bpb [] tokens current_time current_bar_start = Some tokens"
| "notes_loop bpb (note # rest) tokens current_time current_bar_start =
     (case bar_loop bpb (start_time note) tokens current_bar_start of
        None \<Rightarrow> None
      | Some (tokens1, bar_start1) \<Rightarrow>
          notes_loop bpb rest
            ((if fl (current_time + fl (1 / 10)) < start_time note
              then tokens1 @ [create_rest_token (fl (start_time note - current_time))]
              else tokens1) @ [create_note_token note])
            (end_time note) bar_start1)"

definition notes_to_tokens :: "SmartMelodyTokenizer \<Rightarrow> SMTNote list \<Rightarrow> string list option" where
  "notes_to_tokens T ns =
     (case notes_loop (beats_per_bar (midi_cfg T)) ns [''[BOS]''] 0 0 of
        None \<Rightarrow> None
      | Some tokens \<Rightarrow> Some (tokens @ [''[EOS]'']))"

text \<open>
  The result dictionary of \<^verbatim>\<open>encode_notes\<close>. The metadata of the empty case has two keys;
  the four further keys of the general case are \<open>details\<close>. The key \<^verbatim>\<open>pitch_range\<close> of the
  metadata is the field \<open>pitch_min_max\<close>. The key \<^verbatim>\<open>notes\<close> of the result is the
  field \<open>result_notes\<close>.
\<close>

record metadata_details =
  num_tokens :: nat
  compression_ratio :: real
  source :: string
  pitch_min_max :: "(int \<times> int) option"

record metadata =
  num_notes :: nat
  duration :: real
  details :: "metadata_details option"

record encode_result =
  tokens :: "string list"
  token_ids :: "int list"
  metadata :: metadata
  result_notes :: "SMTNote list"

text \<open>
  \<^verbatim>\<open>encode_notes\<close>: \<open>None\<close> when the bar loop does not end, \<open>Some (Inl e)\<close> when an
  exception is raised, \<open>Some (Inr r)\<close> when \<open>r\<close> is returned.
\<close>

definition encode_notes ::
  "SmartMelodyTokenizer \<Rightarrow> SMTNote list \<Rightarrow> string \<Rightarrow> (py_error + encode_result) option" where
  "encode_notes T ns source_info =
     (if ns = [] then
        (case encode_token (vocabulary T) ''[BOS]'' of
           Inl e \<Rightarrow> Some (Inl e)
         | Inr bos \<Rightarrow>
            (case encode_token (vocabulary T) ''[EOS]'' of
               Inl e \<Rightarrow> Some (Inl e)
             | Inr eos \<Rightarrow>
                 Some (Inr \<lparr>tokens = [''[BOS]'', ''[EOS]''],
                            token_ids = [bos, eos],
                            metadata = \<lparr>num_notes = 0, duration = 0, details = None\<rparr>,
                            result_notes = []\<rparr>)))
      else
        (case quantize_notes ns (Some (quantization_grid (midi_cfg T))) of
           Inl e \<Rightarrow> Some (Inl e)
         | Inr quantized_notes \<Rightarrow>
            (case notes_to_tokens T quantized_notes of
               None \<Rightarrow> None
             | Some toks \<Rightarrow>
                (case encode_tokens (vocabulary T) toks of
                   Inl e \<Rightarrow> Some (Inl e)
                 | Inr ids \<Rightarrow>
                     Some (Inr \<lparr>tokens = toks,
                                token_ids = ids,
                                metadata =
                                  \<lparr>num_notes = length ns,
                                   duration = end_time (last ns),
                                   details = Some
                                     \<lparr>num_tokens = length toks,
                                      compression_ratio =
                                        (if toks = [] then 0
                                         else fl (real (length ns) / real (length toks))),
                                      source = source_info,
                                      pitch_min_max =
                                        Some (Min (set (map pitch ns)), Max (set (map pitch ns)))\<rparr>\<rparr>,
                                result_notes = quantized_notes\<rparr>)))))"

subsection \<open>\<^verbatim>\<open>detector.py\<close>: the pattern detector\<close>

record MusicalPattern =
  pattern_type :: string
  start_index :: int
  end_index :: int
  confidence :: real
  description :: string
  pattern_notes :: "SMTNote list"

text \<open>
  The field \<^verbatim>\<open>notes\<close> of the dataclass is \<open>pattern_notes\<close> (\<open>notes\<close> is a keyword here).
\<close>

text \<open>The detector's configuration; every key is read with \<^verbatim>\<open>config.get(key, default)\<close>.\<close>

record detector_config =
  min_pattern_length :: "int option"
  max_pattern_length :: "int option"
  scale_tolerance :: "int option"
  arpeggio_tolerance :: "int option"
  sequence_min_repetitions :: "int option"
  confidence_threshold :: "real option"

definition default_detector_config :: detector_config where
  "default_detector_config =
     \<lparr>min_pattern_length = Some 3, max_pattern_length = Some 8, scale_tolerance = Some 1,
      arpeggio_tolerance = Some 2, sequence_min_repetitions = Some 2,
      confidence_threshold = Some (7 / 10)\<rparr>"

definition get_or :: "'a option \<Rightarrow> 'a \<Rightarrow> 'a" where
  "get_or v d = (case v of None \<Rightarrow> d | Some x \<Rightarrow> x)"

text \<open>\<^verbatim>\<open>[pitches[i+1] - pitches[i] for i in range(len(pitches)-1)]\<close>\<close>

fun intervals_of :: "int list \<Rightarrow> int list" where
  "intervals_of (a # b # rest) = (b - a) # intervals_of (b # rest)"
| "intervals_of [a] = []"
| "intervals_of [] = []"

text \<open>\<^verbatim>\<open>np.mean(intervals)\<close> on a non-empty list of integers.\<close>

definition mean :: "int list \<Rightarrow> real" where
  "mean xs = of_int (sum_list xs) / real (length xs)"

definition analyze_scale_pattern :: "SMTNote list \<Rightarrow> int \<Rightarrow> MusicalPattern option" where
  "analyze_scale_pattern segment start_idx =
     (if length segment < 3 then None
      else
        (let intervals = intervals_of (map pitch segment);
             stepwise_count = length (filter (\<lambda>i. \<bar>i\<bar> \<le> 2) intervals);
             stepwise_ratio = real stepwise_count / real (length intervals)
         in if 4 / 5 \<le> stepwise_ratio then
              (let direction = (if 0 < mean intervals then ''up'' else ''down'')
               in Some \<lparr>pattern_type = ''scale_'' @ direction,
                        start_index = start_idx,
                        end_index = start_idx + int (length segment) - 1,
                        confidence = stepwise_ratio * (4 / 5)
                                     + (if 5 \<le> length segment then 1 / 5 else 0),
                        description = ''Scale passage ('' @ direction @ '') with ''
                                      @ str_int (int (length segment)) @ '' notes'',
                        pattern_notes = segment\<rparr>)
            else None))"

text \<open>
  The two nested loops shared by \<^verbatim>\<open>_detect_scales\<close> and \<^verbatim>\<open>_detect_arpeggios\<close>; the inner
  loop stops (\<^verbatim>\<open>break\<close>) at the first length that passes the end of the list.
\<close>

definition scan_windows ::
  "(SMTNote list \<Rightarrow> int \<Rightarrow> MusicalPattern option) \<Rightarrow> int \<Rightarrow> int \<Rightarrow> SMTNote list
     \<Rightarrow> MusicalPattern list" where
  "scan_windows analyze min_length max_length ns =
     concat (map (\<lambda>start.
        concat (map (\<lambda>len.
           (case analyze (py_slice ns start (start + len)) start of
              Some p \<Rightarrow> if 3 / 5 \<le> confidence p then [p] else []
            | None \<Rightarrow> []))
          (takeWhile (\<lambda>len. \<not> int (length ns) < start + len)
                     (range2 min_length (max_length + 1)))))
       (range1 (int (length ns) - min_length + 1)))"

definition detect_scales :: "detector_config \<Rightarrow> SMTNote list \<Rightarrow> MusicalPattern list" where
  "detect_scales cfg ns =
     (let min_length = get_or (min_pattern_length cfg) 3;
          max_length = min (get_or (max_pattern_length cfg) 8) (int (length ns))
      in scan_windows analyze_scale_pattern min_length max_length ns)"

definition classify_chord_type :: "int list \<Rightarrow> string" where
  "classify_chord_type pitches =
     (if length pitches < 3 then ''unknown''
      else
        (let normalized = sort (map (\<lambda>p. (p - pitches ! 0) mod 12) pitches)
         in if set [0, 4, 7] \<subseteq> set normalized then ''major''
            else if set [0, 3, 7] \<subseteq> set normalized then ''minor''
            else if set [0, 3, 6] \<subseteq> set normalized then ''diminished''
            else if set [0, 4, 8] \<subseteq> set normalized then ''augmented''
            else ''unknown''))"

definition analyze_arpeggio_pattern :: "SMTNote list \<Rightarrow> int \<Rightarrow> MusicalPattern option" where
  "analyze_arpeggio_pattern segment start_idx =
     (if length segment < 3 then None
      else
        (let pitches = map pitch segment;
             intervals = intervals_of pitches;
             chord_intervals = length (filter (\<lambda>i. 3 \<le> \<bar>i\<bar> \<and> \<bar>i\<bar> \<le> 5) intervals);
             chord_ratio = real chord_intervals / real (length intervals)
         in if 3 / 5 \<le> chord_ratio then
              (let chord_type = classify_chord_type pitches;
                   direction = (if 0 < mean intervals then ''up'' else ''down'')
               in Some \<lparr>pattern_type = ''arpeggio_'' @ chord_type,
                        start_index = start_idx,
                        end_index = start_idx + int (length segment) - 1,
                        confidence = chord_ratio * (7 / 10)
                                     + (if 4 \<le> length segment then 3 / 10 else 0),
                        description = ''Arpeggio ('' @ chord_type @ '', '' @ direction
                                      @ '') with '' @ str_int (int (length segment)) @ '' notes'',
                        pattern_notes = segment\<rparr>)
            else None))"

definition detect_arpeggios :: "detector_config \<Rightarrow> SMTNote list \<Rightarrow> MusicalPattern list" where
  "detect_arpeggios cfg ns =
     (let min_length = max 3 (get_or (min_pattern_length cfg) 3);
          max_length = min (get_or (max_pattern_length cfg) 8) (int (length ns))
      in scan_windows analyze_arpeggio_pattern min_length max_length ns)"

text \<open>
  The \<^verbatim>\<open>while\<close> loop of \<^verbatim>\<open>_find_sequence_pattern\<close>, on (repetitions, current_pos); it
  returns the number of repetitions. It does not end for a \<open>pattern_size\<close> that is not
  positive.
\<close>

partial_function (option) sequence_loop ::
  "SMTNote list \<Rightarrow> int \<Rightarrow> int list \<Rightarrow> int \<Rightarrow> int \<Rightarrow> int option" where
  "sequence_loop ns pattern_size intervals1 repetitions current_pos =
     (if current_pos + pattern_size \<le> int (length ns) then
        (if intervals1
              = intervals_of (map pitch (py_slice ns current_pos (current_pos + pattern_size)))
         then sequence_loop ns pattern_size intervals1 (repetitions + 1)
                (current_pos + pattern_size)
         else Some repetitions)
      else Some repetitions)"

declare sequence_loop.simps [code]

text \<open>
  \<^verbatim>\<open>_find_sequence_pattern\<close>: \<open>None\<close> when the loop does not end, \<open>Some None\<close> when Python's
  \<^verbatim>\<open>None\<close> is returned, \<open>Some (Some p)\<close> for a pattern.
\<close>

definition find_sequence_pattern ::
  "detector_config \<Rightarrow> SMTNote list \<Rightarrow> int \<Rightarrow> int \<Rightarrow> MusicalPattern option option" where
  "find_sequence_pattern cfg ns start pattern_size =
     (if int (length ns) < start + pattern_size * 2 then Some None
      else
        (case sequence_loop ns pattern_size
                (intervals_of (map pitch (py_slice ns start (start + pattern_size))))
                1 (start + pattern_size) of
           None \<Rightarrow> None
         | Some repetitions \<Rightarrow>
             if get_or (sequence_min_repetitions cfg) 2 \<le> repetitions then
               (let end_idx = start + repetitions * pattern_size - 1
                in Some (Some
                     \<lparr>pattern_type = ''sequence'',
                      start_index = start,
                      end_index = end_idx,
                      confidence = min (9 / 10) (1 / 2 + (of_int repetitions - 2) * (15 / 100)),
                      description = ''Melodic sequence repeated '' @ str_int repetitions
                                    @ '' times'',
                      pattern_notes = py_slice ns start (end_idx + 1)\<rparr>))
             else Some None))"

text \<open>Appending the patterns found along a list of loop indices.\<close>

fun collect_patterns ::
  "('a \<Rightarrow> MusicalPattern option option) \<Rightarrow> 'a list \<Rightarrow> MusicalPattern list option" where
  "collect_patterns f [] = Some []"
| "collect_patterns f (x # xs) =
     (case f x of
        None \<Rightarrow> None
      | Some r \<Rightarrow>
          (case collect_patterns f xs of
             None \<Rightarrow> None
           | Some ps \<Rightarrow> Some ((case r of None \<Rightarrow> [] | Some p \<Rightarrow> [p]) @ ps)))"

definition detect_sequences :: "detector_config \<Rightarrow> SMTNote list \<Rightarrow> MusicalPattern list option" where
  "detect_sequences cfg ns =
     collect_patterns (\<lambda>(pattern_size, start). find_sequence_pattern cfg ns start pattern_size)
       (concat (map (\<lambda>pattern_size.
                       map (Pair pattern_size) (range1 (int (length ns) - pattern_size * 2)))
                    (range2 2 (4 + 1))))"

definition detect_intervals :: "SMTNote list \<Rightarrow> MusicalPattern list" where
  "detect_intervals ns =
     (if length ns < 3 then []
      else concat (map (\<lambda>i.
        (let interval1 = \<bar>pitch (ns ! nat (i + 1)) - pitch (ns ! nat i)\<bar>;
             interval2 = \<bar>pitch (ns ! nat (i + 2)) - pitch (ns ! nat (i + 1))\<bar>
         in if 4 < interval1 \<and> interval2 \<le> 2 then
              (let direction =
                     (if pitch (ns ! nat i) < pitch (ns ! nat (i + 1)) then ''up'' else ''down'')
               in [\<lparr>pattern_type = ''leap_'' @ direction,
                    start_index = i,
                    end_index = i + 2,
                    confidence = 7 / 10,
                    description = ''Leap '' @ direction @ '' followed by step'',
                    pattern_notes = py_slice ns i (i + 3)\<rparr>])
            else []))
        (range1 (int (length ns) - 2))))"

text \<open>
  The greedy loop of \<^verbatim>\<open>_resolve_overlaps\<close>, on (resolved, used_indices). The sort before
  it is stable and descending in the confidence.
\<close>

fun resolve_loop ::
  "MusicalPattern list \<Rightarrow> MusicalPattern list \<Rightarrow> int set \<Rightarrow> MusicalPattern list" where
  "resolve_loop [] resolved used_indices = resolved"
| "resolve_loop (p # ps) resolved used_indices =
     (let pattern_indices = set (range2 (start_index p) (end_index p + 1))
      in if pattern_indices \<inter> used_indices = {}
         then resolve_loop ps (resolved @ [p]) (used_indices \<union> pattern_indices)
         else resolve_loop ps resolved used_indices)"

definition resolve_overlaps :: "MusicalPattern list \<Rightarrow> MusicalPattern list" where
  "resolve_overlaps ps =
     (if ps = [] then ps
      else resolve_loop (sort_key (\<lambda>p. - confidence p) ps) [] {})"

text \<open>\<^verbatim>\<open>detect_patterns\<close>: \<open>None\<close> only if a sequence loop does not end.\<close>

definition detect_patterns :: "detector_config \<Rightarrow> SMTNote list \<Rightarrow> MusicalPattern list option" where
  "detect_patterns cfg ns =
     (if int (length ns) < get_or (min_pattern_length cfg) 3 then Some []
      else
        (case detect_sequences cfg ns of
           None \<Rightarrow> None
         | Some sequences \<Rightarrow>
             Some (resolve_overlaps
                     (filter (\<lambda>p. get_or (confidence_threshold cfg) (7 / 10) \<le> confidence p)
                        (detect_scales cfg ns @ detect_arpeggios cfg ns @ sequences
                         @ detect_intervals ns)))))"

subsection \<open>The vocabulary list, family by family\<close>

text \<open>
  Lists used to state what the construction loops compute: the note tokens in the order
  the three nested loops visit them, the running-count guard of the innermost loop as a
  step on (vocab, note_count), and the tokens each later family appends.
\<close>

definition note_combinations :: "vocab_config \<Rightarrow> string list" where
  "note_combinations cfg =
     concat (map (\<lambda>p. concat (map (\<lambda>d. map (\<lambda>y. note_token p d y) (dynamics cfg))
                                     (durations cfg)))
                 (get_pitch_names cfg))"

definition limit_step :: "int \<Rightarrow> string \<Rightarrow> string list \<times> int \<Rightarrow> string list \<times> int" where
  "limit_step limit t st = (if snd st < limit then (fst st @ [t], snd st + 1) else st)"

definition note_token_list :: "vocab_config \<Rightarrow> string list" where
  "note_token_list cfg =
     take (nat ((case max_vocab_size cfg of None \<Rightarrow> 2000 | Some m \<Rightarrow> m) - 200))
          (note_combinations cfg)"

definition rest_token_list :: "vocab_config \<Rightarrow> string list" where
  "rest_token_list cfg = map (\<lambda>d. ''REST_'' @ replace CHR ''.'' ''_'' d) (durations cfg)"

definition pattern_token_list :: "vocab_config \<Rightarrow> string list" where
  "pattern_token_list cfg =
     concat (map (\<lambda>entry. map (\<lambda>p. ''PATTERN_'' @ upper p) (snd entry))
                 (case patterns cfg of None \<Rightarrow> [] | Some ps \<Rightarrow> ps))"

subsection \<open>What a token sequence decodes to\<close>

text \<open>
  The pitch and the three names of a note, and the fields of the notes that the decoding
  loop builds from a token sequence, written without the running time and bar counter
  (they do not depend on them).
\<close>

definition note_fields :: "SMTNote \<Rightarrow> int \<times> string \<times> string \<times> string" where
  "note_fields n = (pitch n, pitch_name n, duration_name n, dynamic_name n)"

definition decoded_fields :: "string list \<Rightarrow> (int \<times> string \<times> string \<times> string) list" where
  "decoded_fields toks =
     concat (map (\<lambda>t.
        if t \<in> set [''[BOS]'', ''[EOS]'', ''[PAD]''] \<or> t = ''BAR'' \<or> startswith t ''REST_'' then []
        else if startswith t ''NOTE_''
          then (case parse_note_token t 0 of Some n \<Rightarrow> [note_fields n] | None \<Rightarrow> [])
        else []) toks)"

section \<open>Properties\<close>

subsection \<open>Rounding to a double\<close>

text \<open>
  \<^verbatim>\<open>round\<close> is within a half of its argument and fixes the integers; \<open>fl\<close> is within half
  an \<open>ulp\<close> of its argument, which bounds the relative error by \<open>2 ^ - 53\<close> above the
  subnormal range, and fixes every number with a mantissa of 53 bits: the doubles.
\<close>

lemma py_round_of_int: "py_round (of_int k) = k"
  by (simp add: py_round_def)

lemma py_round_error: "\<bar>of_int (py_round y) - y\<bar> \<le> 1 / 2"
  unfolding py_round_def Let_def by (auto; linarith)


lemma ulp_pos: "0 < ulp x"
  by (simp add: ulp_def)

lemma float_exponent_ge: "- 1022 \<le> float_exponent x"
  by (simp add: float_exponent_def)

lemma pow2_le_abs:
  assumes "x \<noteq> 0" "float_exponent x \<noteq> - 1022"
  shows "2 powi (float_exponent x) \<le> \<bar>x\<bar>"
proof -
  have e: "float_exponent x = \<lfloor>log 2 \<bar>x\<bar>\<rfloor>"
    using assms(2) by (simp add: float_exponent_def max_def split: if_splits)
  have "2 powr real_of_int \<lfloor>log 2 \<bar>x\<bar>\<rfloor> \<le> \<bar>x\<bar>"
    using floor_log_eq_powr_iff [of "\<bar>x\<bar>" 2 "\<lfloor>log 2 \<bar>x\<bar>\<rfloor>"] assms(1) by simp
  thus ?thesis by (simp add: e powr_real_of_int')
qed

lemma abs_less_pow2: "\<bar>x\<bar> < 2 powi (float_exponent x + 1)"
proof (cases "x = 0")
  case True
  thus ?thesis by simp
next
  case False
  have "\<bar>x\<bar> < 2 powr real_of_int (\<lfloor>log 2 \<bar>x\<bar>\<rfloor> + 1)"
    using floor_log_eq_powr_iff [of "\<bar>x\<bar>" 2 "\<lfloor>log 2 \<bar>x\<bar>\<rfloor>"] False by simp
  hence "\<bar>x\<bar> < 2 powi (\<lfloor>log 2 \<bar>x\<bar>\<rfloor> + 1)"
    using powr_real_of_int' [of 2 "\<lfloor>log 2 \<bar>x\<bar>\<rfloor> + 1"] by simp
  also have "\<dots> \<le> 2 powi (float_exponent x + 1)"
    by (rule power_int_increasing) (simp_all add: float_exponent_def)
  finally show ?thesis .
qed

lemma fl_error_ulp: "\<bar>fl x - x\<bar> \<le> ulp x / 2"
proof -
  have "\<bar>of_int (py_round (x / ulp x)) - x / ulp x\<bar> \<le> 1 / 2" by (rule py_round_error)
  hence "\<bar>of_int (py_round (x / ulp x)) - x / ulp x\<bar> * ulp x \<le> 1 / 2 * ulp x"
    using ulp_pos [of x] by (simp only: mult_le_cancel_right_pos)
  moreover have "\<bar>of_int (py_round (x / ulp x)) - x / ulp x\<bar> * ulp x = \<bar>fl x - x\<bar>"
  proof -
    have "\<bar>of_int (py_round (x / ulp x)) - x / ulp x\<bar> * ulp x
          = \<bar>(of_int (py_round (x / ulp x)) - x / ulp x) * ulp x\<bar>"
      using ulp_pos [of x] by (simp add: abs_mult)
    also have "(of_int (py_round (x / ulp x)) - x / ulp x) * ulp x = fl x - x"
      using ulp_pos [of x] by (simp add: fl_def left_diff_distrib)
    finally show ?thesis .
  qed
  ultimately show ?thesis by simp
qed

lemma fl_zero: "fl 0 = 0"
  by (simp add: fl_def py_round_def)

lemma ulp_bound:
  assumes "x \<noteq> 0"
  shows "ulp x \<le> max (\<bar>x\<bar> / 2 ^ 52) (2 powi (- 1074))"
proof (cases "float_exponent x = - 1022")
  case True
  thus ?thesis by (simp add: ulp_def)
next
  case False
  have "2 powi (float_exponent x) \<le> \<bar>x\<bar>" using assms False by (rule pow2_le_abs)
  moreover have "ulp x = 2 powi (float_exponent x) / 2 ^ 52"
    unfolding ulp_def by (simp add: power_int_diff)
  ultimately have "ulp x \<le> \<bar>x\<bar> / 2 ^ 52" by (simp add: divide_right_mono)
  thus ?thesis by simp
qed

lemma fl_error: "\<bar>fl x - x\<bar> \<le> \<bar>x\<bar> / 2 ^ 53 + 2 powi (- 1075)"
proof (cases "x = 0")
  case True
  thus ?thesis by (simp add: fl_zero)
next
  case False
  have "\<bar>fl x - x\<bar> \<le> ulp x / 2" by (rule fl_error_ulp)
  also have "\<dots> \<le> max (\<bar>x\<bar> / 2 ^ 52) (2 powi (- 1074)) / 2"
    using ulp_bound [OF False] by simp
  also have "\<dots> \<le> \<bar>x\<bar> / 2 ^ 53 + 2 powi (- 1075)"
  proof -
    have "(2::real) powi (- 1074) / 2 = 2 powi (- 1075)"
      using power_int_diff [of "2::real" "- 1074" 1] by simp
    moreover have "0 < (2::real) powi (- 1075)" by simp
    ultimately show ?thesis unfolding max_def by (auto simp: field_simps)
  qed
  finally show ?thesis .
qed

lemma fl_representable:
  assumes n: "\<bar>n\<bar> < 2 ^ 53" and e: "- 1074 \<le> e"
  shows "fl (of_int n * 2 powi e) = of_int n * 2 powi e"
proof (cases "n = 0")
  case True
  thus ?thesis by (simp add: fl_zero)
next
  case False
  define x :: real where "x = of_int n * 2 powi e"
  have x0: "x \<noteq> 0" using False by (simp add: x_def)
  have le: "float_exponent x - 52 \<le> e"
  proof (rule ccontr)
    assume "\<not> float_exponent x - 52 \<le> e"
    hence gt: "e + 52 < float_exponent x" by simp
    hence "float_exponent x \<noteq> - 1022" using e by simp
    hence "2 powi (float_exponent x) \<le> \<bar>x\<bar>" using x0 pow2_le_abs by simp
    moreover have "\<bar>x\<bar> < 2 ^ 53 * 2 powi e"
    proof -
      have "\<bar>x\<bar> = real_of_int \<bar>n\<bar> * 2 powi e" by (simp add: x_def abs_mult)
      moreover have "real_of_int \<bar>n\<bar> < 2 ^ 53" using n
        by (metis of_int_less_numeral_power_cancel_iff)
      ultimately show ?thesis by simp
    qed
    moreover have "(2::real) ^ 53 * 2 powi e = 2 powi (e + 53)"
      by (simp add: power_int_add)
    ultimately have "(2::real) powi (float_exponent x) < 2 powi (e + 53)" by simp
    hence "float_exponent x < e + 53"
      by (metis linorder_not_less one_le_numeral power_int_increasing)
    thus False using gt by simp
  qed
  define k where "k = nat (e - (float_exponent x - 52))"
  have ek: "e = (float_exponent x - 52) + int k" using le by (simp add: k_def)
  have "2 powi e = (2::real) powi (float_exponent x - 52) * 2 ^ k"
    by (subst ek) (simp add: power_int_add)
  hence "of_int n * 2 powi e = of_int (n * 2 ^ k) * ulp x" by (simp add: ulp_def)
  hence xu: "x = of_int (n * 2 ^ k) * ulp x" by (simp only: x_def)
  hence "x / ulp x = of_int (n * 2 ^ k)" using ulp_pos [of x]
    by (metis less_irrefl nonzero_mult_div_cancel_right)
  hence "py_round (x / ulp x) = n * 2 ^ k" by (simp only: py_round_of_int)
  hence "fl x = x" unfolding fl_def using xu by simp
  thus ?thesis by (simp add: x_def)
qed

lemma fl_representable_le:
  assumes n: "\<bar>n\<bar> \<le> 2 ^ 53" and e: "- 1074 \<le> e"
  shows "fl (of_int n * 2 powi e) = of_int n * 2 powi e"
proof (cases "\<bar>n\<bar> < 2 ^ 53")
  case True
  thus ?thesis using e by (rule fl_representable)
next
  case False
  hence "\<bar>n\<bar> = 2 ^ 53" using n by simp
  hence "n = 2 ^ 53 \<or> n = - (2 ^ 53)" by linarith
  hence "real_of_int n * 2 powi e = of_int (sgn n) * 2 powi (e + 53)"
    by (auto simp: power_int_add)
  moreover have "fl (of_int (sgn n) * 2 powi (e + 53)) = of_int (sgn n) * 2 powi (e + 53)"
    by (rule fl_representable) (use e in \<open>auto simp: sgn_if\<close>)
  ultimately show ?thesis by simp
qed

lemma py_round_bound:
  assumes "\<bar>y\<bar> < of_int m"
  shows "\<bar>py_round y\<bar> \<le> m"
proof -
  have "\<bar>of_int (py_round y) - y\<bar> \<le> 1 / 2" by (rule py_round_error)
  hence "\<bar>real_of_int (py_round y)\<bar> < of_int m + 1" using assms by linarith
  hence "real_of_int \<bar>py_round y\<bar> < of_int (m + 1)" by simp
  hence "\<bar>py_round y\<bar> < m + 1" by (simp only: of_int_less_iff)
  thus ?thesis by simp
qed

lemma fl_mantissa: "\<bar>py_round (x / ulp x)\<bar> \<le> 2 ^ 53"
proof -
  have "\<bar>x\<bar> < 2 powi (float_exponent x + 1)" by (rule abs_less_pow2)
  also have "\<dots> = 2 ^ 53 * ulp x"
    unfolding ulp_def using power_int_add [of "2::real" "float_exponent x - 52" 53]
    by (simp add: mult.commute add.commute)
  finally have "\<bar>x\<bar> / ulp x < 2 ^ 53" using ulp_pos [of x] by (simp add: field_simps)
  hence "\<bar>x / ulp x\<bar> < of_int (2 ^ 53)" using ulp_pos [of x] by simp
  thus ?thesis by (rule py_round_bound)
qed

lemma fl_fl: "fl (fl x) = fl x"
  unfolding fl_def [of x] ulp_def
  by (rule fl_representable_le) (use fl_mantissa [of x] float_exponent_ge [of x] in
      \<open>simp_all add: ulp_def\<close>)

lemma fl_dyadic:
  assumes "\<bar>n\<bar> \<le> 2 ^ 53" "k \<le> 1074"
  shows "fl (of_int n / 2 ^ k) = of_int n / 2 ^ k"
proof -
  have "of_int n / 2 ^ k = of_int n * (2::real) powi (- int k)"
    by (simp add: power_int_minus field_simps)
  moreover have "fl (of_int n * 2 powi (- int k)) = of_int n * 2 powi (- int k)"
    using assms by (intro fl_representable_le) simp_all
  ultimately show ?thesis by simp
qed

lemma fl_of_int: "\<bar>n\<bar> \<le> 2 ^ 53 \<Longrightarrow> fl (of_int n) = of_int n"
  using fl_dyadic [of n 0] by simp

lemma py_round_minus: "py_round (- y) = - py_round y"
proof (cases "y = of_int \<lfloor>y\<rfloor>")
  case True
  then obtain k where "y = of_int k" ..
  thus ?thesis using py_round_of_int [of "- k"] py_round_of_int [of k] by simp
next
  case False
  hence f: "\<lfloor>- y\<rfloor> = - \<lfloor>y\<rfloor> - 1" by (simp add: floor_minus ceiling_altdef)
  have d: "0 < y - of_int \<lfloor>y\<rfloor>" using False by (smt (verit) of_int_floor_le)
  show ?thesis unfolding py_round_def Let_def f using d by (auto; linarith?)
qed

lemma float_exponent_minus: "float_exponent (- x) = float_exponent x"
  by (simp add: float_exponent_def)

lemma fl_minus: "fl (- x) = - fl x"
  by (simp add: fl_def ulp_def float_exponent_minus py_round_minus)

lemma fl_one: "fl 1 = 1"
  using fl_of_int [of 1] by simp

lemma fl_numeral: "numeral a \<le> (2::int) ^ 53 \<Longrightarrow> fl (numeral a) = numeral a"
  using fl_of_int [of "numeral a"] by simp

lemma small_power_of_two:
  assumes "(b::int) \<in> {2, 4, 8, 16, 32, 64, 128, 256, 512, 1024}"
  shows "\<exists>k\<le>10. b = 2 ^ k"
proof -
  have all: "\<forall>b \<in> set [2, 4, 8, 16, 32, 64, 128, 256, 512, 1024 :: int].
          \<exists>k \<in> set [0..<11]. b = 2 ^ k"
    by code_simp
  have "b \<in> set [2, 4, 8, 16, 32, 64, 128, 256, 512, 1024 :: int]" using assms by simp
  with all have "\<exists>k \<in> set [0..<11]. b = 2 ^ k" by (rule bspec)
  thus ?thesis by auto
qed

lemma fl_numeral_frac:
  assumes "(numeral b :: int) \<in> {2, 4, 8, 16, 32, 64, 128, 256, 512, 1024}"
    and "numeral a \<le> (2::int) ^ 53"
  shows "fl (numeral a / numeral b) = numeral a / numeral b"
proof -
  obtain k where k: "k \<le> 10" "(numeral b :: int) = 2 ^ k"
    using small_power_of_two [OF assms(1)] by blast
  have "real_of_int (numeral b) = of_int (2 ^ k)" using k(2) by simp
  hence b: "(numeral b :: real) = 2 ^ k" by simp
  have "fl (of_int (numeral a) / 2 ^ k) = of_int (numeral a) / 2 ^ k"
    using assms(2) k(1) by (intro fl_dyadic) simp_all
  thus ?thesis by (simp add: b)
qed

lemma fl_one_frac:
  assumes "(numeral b :: int) \<in> {2, 4, 8, 16, 32, 64, 128, 256, 512, 1024}"
  shows "fl (1 / numeral b) = 1 / numeral b"
proof -
  have "fl (numeral Num.One / numeral b) = numeral Num.One / numeral b"
    using assms by (intro fl_numeral_frac) simp_all
  thus ?thesis by simp
qed

lemma fl_eval:
  assumes "2 powi e \<le> \<bar>x\<bar>" "\<bar>x\<bar> < 2 powi (e + 1)" "- 1022 \<le> e"
  shows "fl x = of_int (py_round (x / 2 powi (e - 52))) * 2 powi (e - 52)"
proof -
  have x0: "0 < \<bar>x\<bar>" using assms(1) by (smt (verit) zero_less_power_int)
  have "\<lfloor>log 2 \<bar>x\<bar>\<rfloor> = e"
    using floor_log_eq_powr_iff [of "\<bar>x\<bar>" 2 e] x0 assms(1,2)
      powr_real_of_int' [of 2 e] powr_real_of_int' [of 2 "e + 1"] by simp
  hence "float_exponent x = e" using assms(3) by (simp add: float_exponent_def)
  thus ?thesis by (simp add: fl_def ulp_def)
qed

text \<open>Evaluation: on numerals by rewriting, and on any rational input by computation.\<close>

lemmas fl_simps = fl_zero fl_one fl_numeral fl_numeral_frac fl_one_frac fl_minus

lemma fl_tenth: "fl (1 / 10) = 3602879701896397 / 36028797018963968"
  by (subst fl_eval [where e = "- 4"]) (simp_all add: py_round_def)

lemma fl_tenth_fl:
  "fl (3602879701896397 / 36028797018963968) = 3602879701896397 / 36028797018963968"
  using fl_fl [of "1 / 10"] by (simp only: fl_tenth)

lemma float_exponent_unique:
  assumes "x \<noteq> 0" "- 1022 \<le> e" "\<bar>x\<bar> < 2 powi (e + 1)" "e = - 1022 \<or> 2 powi e \<le> \<bar>x\<bar>"
  shows "float_exponent x = e"
proof (cases "2 powi e \<le> \<bar>x\<bar>")
  case True
  have "\<lfloor>log 2 \<bar>x\<bar>\<rfloor> = e"
    using floor_log_eq_powr_iff [of "\<bar>x\<bar>" 2 e] assms(1,3) True
      powr_real_of_int' [of 2 e] powr_real_of_int' [of 2 "e + 1"] by simp
  thus ?thesis using assms(2) by (simp add: float_exponent_def)
next
  case False
  hence e: "e = - 1022" using assms(4) by simp
  have "\<lfloor>log 2 \<bar>x\<bar>\<rfloor> < e"
  proof (rule ccontr)
    assume "\<not> \<lfloor>log 2 \<bar>x\<bar>\<rfloor> < e"
    hence "e \<le> \<lfloor>log 2 \<bar>x\<bar>\<rfloor>" by simp
    hence "(2::real) powi e \<le> 2 powi \<lfloor>log 2 \<bar>x\<bar>\<rfloor>" by (intro power_int_increasing) simp_all
    also have "\<dots> \<le> \<bar>x\<bar>"
      using floor_log_eq_powr_iff [of "\<bar>x\<bar>" 2 "\<lfloor>log 2 \<bar>x\<bar>\<rfloor>"] assms(1)
        powr_real_of_int' [of 2 "\<lfloor>log 2 \<bar>x\<bar>\<rfloor>"] by simp
    finally show False using False by simp
  qed
  thus ?thesis by (simp add: float_exponent_def e)
qed

text \<open>
  The binary exponent, computed from the bit length of an integer: of the integer part of
  a number of magnitude at least 1, of the inverse rounded up otherwise.
\<close>

lemma float_exponent_code [code]:
  "float_exponent x =
     (if x = 0 then 0
      else if 1 \<le> \<bar>x\<bar> then max (bitlen \<lfloor>\<bar>x\<bar>\<rfloor> - 1) (- 1022)
      else max (- bitlen (\<lceil>1 / \<bar>x\<bar>\<rceil> - 1)) (- 1022))"
proof (cases "x = 0")
  case True
  thus ?thesis by (simp add: float_exponent_def log_def)
next
  case x0: False
  show ?thesis
  proof (cases "1 \<le> \<bar>x\<bar>")
    case True
    define n where "n = \<lfloor>\<bar>x\<bar>\<rfloor>"
    define L where "L = bitlen n - 1"
    have n1: "1 \<le> n" using True by (simp add: n_def)
    hence bl: "2 ^ nat (bitlen n - 1) \<le> n" "n < 2 ^ nat (bitlen n)"
      using bitlen_bounds [of n] by simp_all
    have b1: "1 \<le> bitlen n" using n1 bitlen_ge_iff_power [of 1 n] by simp
    hence L0: "0 \<le> L" by (simp add: L_def)
    have p1: "(2::real) powi L = 2 ^ nat (bitlen n - 1)" using L0 by (simp add: L_def power_int_def)
    have p2: "(2::real) powi (L + 1) = 2 ^ nat (bitlen n)" using L0 b1
      by (simp add: L_def power_int_def)
    have "real_of_int (2 ^ nat (bitlen n - 1)) \<le> of_int n" using bl(1) by (simp only: of_int_le_iff)
    also have "real_of_int n \<le> \<bar>x\<bar>" by (simp add: n_def)
    finally have lo: "2 powi L \<le> \<bar>x\<bar>" by (simp add: p1)
    have "n + 1 \<le> 2 ^ nat (bitlen n)" using bl(2) by simp
    hence "real_of_int (n + 1) \<le> of_int (2 ^ nat (bitlen n))" by (simp only: of_int_le_iff)
    moreover have "\<bar>x\<bar> < real_of_int (n + 1)" unfolding n_def by linarith
    ultimately have hi: "\<bar>x\<bar> < 2 powi (L + 1)" by (simp add: p2)
    have "float_exponent x = L"
      using x0 _ hi by (rule float_exponent_unique) (use L0 lo in simp_all)
    thus ?thesis using True x0 L0 by (simp add: L_def n_def)
  next
    case False
    define y where "y = 1 / \<bar>x\<bar>"
    define m where "m = \<lceil>y\<rceil> - 1"
    define K where "K = bitlen m"
    have a0: "0 < \<bar>x\<bar>" using x0 by simp
    have y1: "1 < y" using False a0 by (simp add: y_def)
    hence m1: "1 \<le> m" unfolding m_def by linarith
    hence bl: "2 ^ nat (bitlen m - 1) \<le> m" "m < 2 ^ nat (bitlen m)"
      using bitlen_bounds [of m] by simp_all
    have K1: "1 \<le> K" unfolding K_def using m1 bitlen_ge_iff_power [of 1 m] by simp
    have my: "real_of_int m < y" "y \<le> real_of_int m + 1" unfolding m_def by linarith+
    have "m + 1 \<le> 2 ^ nat K" using bl(2) by (simp add: K_def)
    hence "real_of_int (m + 1) \<le> of_int (2 ^ nat K)" by (simp only: of_int_le_iff)
    hence yK: "y \<le> 2 ^ nat K" using my(2) by simp
    have "real_of_int (2 ^ nat (K - 1)) \<le> of_int m" using bl(1) by (simp only: of_int_le_iff K_def)
    hence "(2::real) ^ nat (K - 1) \<le> of_int m" by simp
    hence Ky: "2 ^ nat (K - 1) < y" using my(1) by linarith
    have p1: "(2::real) powi (- K) = 1 / 2 ^ nat K" using K1
      by (simp add: power_int_def field_simps)
    have p2: "(2::real) powi (- K + 1) = 1 / 2 ^ nat (K - 1)" using K1
      by (simp add: power_int_def field_simps nat_diff_distrib)
    have lo: "2 powi (- K) \<le> \<bar>x\<bar>"
      using yK a0 unfolding p1 y_def by (simp add: field_simps)
    have hi: "\<bar>x\<bar> < 2 powi (- K + 1)"
      using Ky a0 unfolding p2 y_def by (simp add: field_simps)
    show ?thesis
    proof (cases "- 1022 \<le> - K")
      case True
      have "float_exponent x = - K"
        using x0 True hi by (rule float_exponent_unique) (use lo in simp)
      thus ?thesis using False x0 True by (simp add: K_def m_def y_def)
    next
      case F: False
      have "(2::real) powi (- K + 1) \<le> 2 powi (- 1022 + 1)"
        using F by (intro power_int_increasing) simp_all
      hence "\<bar>x\<bar> < 2 powi (- 1022 + 1)" using hi by linarith
      hence "float_exponent x = - 1022"
        using x0 by (intro float_exponent_unique) simp_all
      thus ?thesis using False x0 F by (simp add: K_def m_def y_def)
    qed
  qed
qed

lemma fl_error_weak: "\<bar>fl x - x\<bar> \<le> \<bar>x\<bar> / 2 ^ 53 + 1 / 2 ^ 128"
proof -
  have "(2::real) powi (- 1075) \<le> 2 powi (- 128)"
    by (rule power_int_increasing) simp_all
  also have "\<dots> = 1 / 2 ^ 128" by (simp add: power_int_minus field_simps)
  finally show ?thesis using fl_error [of x] by linarith
qed

subsection \<open>Quantization\<close>

lemma grid_unit_lower:
  assumes "0 < g" "g \<le> 2 ^ 53"
  shows "1 / 2 ^ 52 \<le> grid_unit g"
proof -
  have q: "fl (of_int g / 4) = of_int g / 4"
    using fl_dyadic [of g 2] assms by simp
  define y :: real where "y = 1 / (of_int g / 4)"
  have "real_of_int g \<le> 2 ^ 53" using assms(2)
    by (metis of_int_le_numeral_power_cancel_iff)
  moreover have "0 < real_of_int g" using assms(1) by simp
  ultimately have y: "1 / 2 ^ 51 \<le> y" unfolding y_def by (simp add: field_simps)
  have "\<bar>fl y - y\<bar> \<le> \<bar>y\<bar> / 2 ^ 53 + 1 / 2 ^ 128" by (rule fl_error_weak)
  hence "1 / 2 ^ 52 \<le> fl y" using y by (simp add: abs_if field_simps split: if_splits) 
  thus ?thesis by (simp add: grid_unit_def q y_def)
qed




lemma grid_unit_16: "grid_unit 16 = 1 / 4"
  by (simp add: grid_unit_def fl_simps)

lemma grid_unit_minus_16: "grid_unit (- 16) = - (1 / 4)"
  by (simp add: grid_unit_def fl_simps)

lemma abs_pos_of_lower: "1 / 2 ^ 52 \<le> \<bar>b::real\<bar> \<Longrightarrow> 0 < \<bar>b\<bar>"
  by (smt (verit) divide_pos_pos zero_less_numeral zero_less_power)

lemma tiny_le_grid:
  assumes "1 / 2 ^ 52 \<le> \<bar>b::real\<bar>"
  shows "1 / 2 ^ 128 \<le> \<bar>b\<bar> / 2 ^ 76"
proof -
  have "(1 / 2 ^ 52) / 2 ^ 76 \<le> \<bar>b\<bar> / 2 ^ 76" using assms by (rule divide_right_mono) simp
  thus ?thesis by simp
qed

lemma int_times_grid_bound:
  assumes "\<bar>j::int\<bar> \<le> 2 ^ 42"
  shows "\<bar>of_int j * b\<bar> \<le> 2 ^ 42 * \<bar>b::real\<bar>"
proof -
  have "\<bar>real_of_int j\<bar> \<le> 2 ^ 42" using assms
    by (metis of_int_abs of_int_le_numeral_power_cancel_iff)
  thus ?thesis by (simp add: abs_mult mult_right_mono)
qed

text \<open>A float product of a moderate integer and the grid unit is close to the exact product.\<close>

lemma fl_grid_multiple:
  assumes j: "\<bar>j\<bar> \<le> 2 ^ 42" and b: "1 / 2 ^ 52 \<le> \<bar>b\<bar>"
  shows "\<bar>fl (of_int j * b) - of_int j * b\<bar> \<le> \<bar>b\<bar> / 2 ^ 10"
proof -
  have "\<bar>fl (of_int j * b) - of_int j * b\<bar> \<le> \<bar>of_int j * b\<bar> / 2 ^ 53 + 1 / 2 ^ 128"
    by (rule fl_error_weak)
  moreover have "\<bar>of_int j * b\<bar> / 2 ^ 53 \<le> 2 ^ 42 * \<bar>b\<bar> / 2 ^ 53"
    using int_times_grid_bound [OF j, of b] by (simp add: divide_right_mono)
  moreover note tiny_le_grid [OF b]
  ultimately show ?thesis using abs_pos_of_lower [OF b] by (simp add: field_simps)
qed


text \<open>The multiple that the first pass rounds to is moderate when the time is.\<close>

lemma py_round_grid_bound:
  assumes b: "1 / 2 ^ 52 \<le> \<bar>b\<bar>" and x: "\<bar>x\<bar> \<le> (2 ^ 41 + 1) * \<bar>b\<bar>"
  shows "\<bar>py_round (fl (x / b))\<bar> \<le> 2 ^ 42"
proof -
  have b0: "0 < \<bar>b\<bar>" using b by (rule abs_pos_of_lower)
  have "\<bar>x / b\<bar> = \<bar>x\<bar> / \<bar>b\<bar>" by (simp only: abs_divide)
  also have "\<dots> \<le> ((2 ^ 41 + 1) * \<bar>b\<bar>) / \<bar>b\<bar>" using x b0 by (simp only: divide_right_mono less_imp_le)
  also have "\<dots> = 2 ^ 41 + 1" using b0 by simp
  finally have 1: "\<bar>x / b\<bar> \<le> 2 ^ 41 + 1" .
  have "\<bar>fl (x / b) - x / b\<bar> \<le> \<bar>x / b\<bar> / 2 ^ 53 + 1 / 2 ^ 128" by (rule fl_error_weak)
  hence "\<bar>fl (x / b)\<bar> < of_int (2 ^ 41 + 2)" using 1 by simp
  hence "\<bar>py_round (fl (x / b))\<bar> \<le> 2 ^ 41 + 2" by (rule py_round_bound)
  thus ?thesis by simp
qed




lemma beats_to_duration_name_quarter_beat: "beats_to_duration_name (1 / 4) = ''sixteenth''"
  by (simp add: beats_to_duration_name_def beats_duration_map_def fl_simps fl_tenth)




text \<open>
  Off the power-of-two grids the grid unit is not a power of two and the rounding shows:
  with the grid 20 a note from beat 0 to beat 1.375 lasts seven grid units, which the float
  product makes 1.4000000000000001, within 0.1 of a dotted quarter.
\<close>

lemma quantize_notes_grid_20:
  "quantize_notes
     [\<lparr>pitch = 60, start_time = 0, end_time = 11 / 8, velocity = 80,
       pitch_name = ''C4'', duration_name = ''quarter'', dynamic_name = ''mf''\<rparr>] (Some 20)
   = Inr [\<lparr>pitch = 60, start_time = 0, end_time = 6305039478318695 / 4503599627370496,
           velocity = 80, pitch_name = ''C4'', duration_name = ''dotted_quarter'',
           dynamic_name = ''mf''\<rparr>]"
  by code_simp




subsection \<open>Notes have a positive length\<close>

lemma pitch_name_to_midi_C4: "pitch_name_to_midi ''C4'' = Inr 60"
  by (simp add: pitch_name_to_midi_def py_int_char_def note_map_def)

lemma fl_add_increases:
  assumes d: "1 / 2 ^ 52 \<le> d" and s: "\<bar>s\<bar> \<le> c * d" and c: "c \<le> 2 ^ 52"
  shows "s < fl (s + d)"
proof -
  have cd: "c * d \<le> 2 ^ 52 * d" using c d by (intro mult_right_mono) simp_all
  have "\<bar>fl (s + d) - (s + d)\<bar> \<le> \<bar>s + d\<bar> / 2 ^ 53 + 1 / 2 ^ 128" by (rule fl_error_weak)
  moreover have "\<bar>s + d\<bar> \<le> 2 ^ 52 * d + d"
  proof -
    have "0 \<le> d" using d by (smt (verit) divide_nonneg_nonneg zero_le_numeral zero_le_power)
    hence "\<bar>s + d\<bar> \<le> \<bar>s\<bar> + d" by linarith
    also have "\<dots> \<le> 2 ^ 52 * d + d" using s cd by linarith
    finally show ?thesis .
  qed
  ultimately have "s + d - (2 ^ 52 * d + d) / 2 ^ 53 - 1 / 2 ^ 128 \<le> fl (s + d)"
    by (simp add: field_simps abs_if split: if_splits)
  thus ?thesis using d by (simp add: field_simps)
qed

lemma quantize_note_positive:
  assumes b: "1 / 2 ^ 52 \<le> b"
    and s: "\<bar>start_time (quantize_note b n)\<bar> \<le> 2 ^ 52 * b"
  shows "start_time (quantize_note b n) < end_time (quantize_note b n)"
proof -
  define qs where "qs = start_time (quantize_note b n)"
  define qd where "qd = max (fl (fl (of_int (py_round (fl (fl (end_time n - start_time n) / b))))
                     * b)) b"
  have e: "end_time (quantize_note b n) = fl (qs + qd)"
    by (simp add: quantize_note_def Let_def qs_def qd_def)
  have bq: "b \<le> qd" by (simp add: qd_def)
  have "0 < b" using b by (smt (verit) divide_pos_pos zero_less_numeral zero_less_power)
  hence "\<bar>qs\<bar> \<le> 2 ^ 52 * qd" using s bq unfolding qs_def [symmetric]
    by (smt (verit) mult_left_mono zero_le_numeral zero_le_power)
  moreover have "1 / 2 ^ 52 \<le> qd" using b bq by linarith
  ultimately have "qs < fl (qs + qd)" by (intro fl_add_increases [where c = "2 ^ 52"]) simp_all
  thus ?thesis by (simp add: e qs_def)
qed

lemma quantize_note_start_bound:
  assumes b: "1 / 2 ^ 52 \<le> b" and s: "\<bar>start_time n\<bar> \<le> 2 ^ 40 * b"
  shows "\<bar>start_time (quantize_note b n)\<bar> \<le> 2 ^ 52 * b"
proof -
  have b0: "0 < b" using b by (smt (verit) divide_pos_pos zero_less_numeral zero_less_power)
  hence ab: "\<bar>b\<bar> = b" by simp
  have b': "1 / 2 ^ 52 \<le> \<bar>b\<bar>" using b ab by simp
  define k where "k = py_round (fl (start_time n / b))"
  have k: "\<bar>k\<bar> \<le> 2 ^ 42"
    unfolding k_def using b'
  proof (rule py_round_grid_bound)
    show "\<bar>start_time n\<bar> \<le> (2 ^ 41 + 1) * \<bar>b\<bar>" using s b0 by (simp add: ab)
  qed
  have fk: "fl (of_int k) = of_int k" using k by (intro fl_of_int) simp
  have qs: "start_time (quantize_note b n) = fl (of_int k * b)"
    by (simp add: quantize_note_def Let_def k_def [symmetric] fk)
  have "\<bar>fl (of_int k * b) - of_int k * b\<bar> \<le> b / 1024"
    using fl_grid_multiple [OF k b'] by (simp add: ab)
  moreover have "\<bar>of_int k * b\<bar> \<le> 4398046511104 * b"
    using int_times_grid_bound [OF k, of b] by (simp add: ab)
  ultimately have "\<bar>fl (of_int k * b)\<bar> \<le> 4503599627370496 * b" using b0 by linarith
  thus ?thesis by (simp add: qs)
qed

lemma duration_name_to_beats_bounds:
  "1 / 4 \<le> duration_name_to_beats dn \<and> duration_name_to_beats dn \<le> 4"
  by (simp add: duration_name_to_beats_def name_duration_map_def)

lemma duration_name_to_beats_pos: "0 < duration_name_to_beats dn"
  using duration_name_to_beats_bounds [of dn] by linarith

lemma parse_note_token_times:
  assumes "parse_note_token tok st = Some n"
  shows "start_time n = st \<and> (\<bar>st\<bar> \<le> 2 ^ 50 \<longrightarrow> st < end_time n)"
proof -
  from assms obtain dn where n: "start_time n = st" "end_time n = fl (st + duration_name_to_beats dn)"
    by (auto simp: parse_note_token_def Let_def split: if_splits sum.splits)
  have "st < fl (st + duration_name_to_beats dn)" if "\<bar>st\<bar> \<le> 2 ^ 50"
  proof (rule fl_add_increases [where c = "2 ^ 52"])
    show "1 / 2 ^ 52 \<le> duration_name_to_beats dn"
      using duration_name_to_beats_bounds [of dn] by simp
    show "\<bar>st\<bar> \<le> 2 ^ 52 * duration_name_to_beats dn"
      using duration_name_to_beats_bounds [of dn] that by simp
  qed simp
  thus ?thesis using n by simp
qed

text \<open>The decoding loop only ever appends notes built by \<open>parse_note_token\<close>.\<close>

lemma tokens_loop_positive:
  "\<forall>n \<in> set acc. \<bar>start_time n\<bar> \<le> 2 ^ 50 \<longrightarrow> start_time n < end_time n \<Longrightarrow>
   \<forall>n \<in> set (tokens_loop bpb toks acc ct cb).
      \<bar>start_time n\<bar> \<le> 2 ^ 50 \<longrightarrow> start_time n < end_time n"
proof (induction toks arbitrary: acc ct cb)
  case Nil
  then show ?case by simp
next
  case (Cons t ts)
  show ?case
  proof (cases "parse_note_token t ct")
    case None
    then show ?thesis using Cons by simp
  next
    case (Some n)
    then have "\<forall>m \<in> set (acc @ [n]). \<bar>start_time m\<bar> \<le> 2 ^ 50 \<longrightarrow> start_time m < end_time m"
      using Cons.prems parse_note_token_times by auto
    then have "\<forall>m \<in> set (tokens_loop bpb ts (acc @ [n]) (end_time n) cb).
        \<bar>start_time m\<bar> \<le> 2 ^ 50 \<longrightarrow> start_time m < end_time m"
      by (rule Cons.IH)
    then show ?thesis using Cons Some by simp
  qed
qed

lemma beats_to_duration_name_0: "beats_to_duration_name 0 = ''quarter''"
  by (simp add: beats_to_duration_name_def beats_duration_map_def fl_simps fl_tenth)

lemma beats_to_duration_name_neg: "beats_to_duration_name (- (1 / 4)) = ''quarter''"
  by (simp add: beats_to_duration_name_def beats_duration_map_def fl_simps fl_tenth)

text \<open>
  Claim C10, as amended. Every note produced by \<open>quantize_notes\<close> with a positive grid
  (at most \<open>2 ^ 53\<close>; the default grid is one) from notes whose start and end lie within
  \<open>2 ^ 40\<close> grid units of time 0, and every note constructed while decoding a \<^verbatim>\<open>NOTE_*\<close>
  token at a current time within \<open>2 ^ 50\<close> beats of time 0, ends after it starts:
  quantization clamps the duration to at least one grid unit, every duration name,
  recognized or not, maps to at least a quarter of a beat, and at these magnitudes the
  float addition that computes the end does not round the duration away.
\<close>

theorem produced_notes_have_positive_length:
  "(0 < (case g of None \<Rightarrow> processor_quantization_grid | Some k \<Rightarrow> k)
    \<and> (case g of None \<Rightarrow> processor_quantization_grid | Some k \<Rightarrow> k) \<le> 2 ^ 53
    \<and> (\<forall>n \<in> set ns.
          \<bar>start_time n\<bar>
            \<le> 2 ^ 40 * grid_unit (case g of None \<Rightarrow> processor_quantization_grid | Some k \<Rightarrow> k)
        \<and> \<bar>end_time n\<bar>
            \<le> 2 ^ 40 * grid_unit (case g of None \<Rightarrow> processor_quantization_grid | Some k \<Rightarrow> k))
    \<longrightarrow>
      (\<exists>qs. quantize_notes ns g = Inr qs \<and> length qs = length ns
            \<and> (\<forall>q \<in> set qs. start_time q < end_time q)))
   \<and> (\<forall>n \<in> set (tokens_to_notes T toks).
         \<bar>start_time n\<bar> \<le> 2 ^ 50 \<longrightarrow> start_time n < end_time n)
   \<and> (\<forall>st n. parse_note_token tok st = Some n \<longrightarrow>
         start_time n = st \<and> (\<bar>st\<bar> \<le> 2 ^ 50 \<longrightarrow> st < end_time n))
   \<and> 0 < duration_name_to_beats dn"
proof (intro conjI impI allI)
  define G where "G = (case g of None \<Rightarrow> processor_quantization_grid | Some k \<Rightarrow> k)"
  assume "0 < (case g of None \<Rightarrow> processor_quantization_grid | Some k \<Rightarrow> k)
    \<and> (case g of None \<Rightarrow> processor_quantization_grid | Some k \<Rightarrow> k) \<le> 2 ^ 53
    \<and> (\<forall>n \<in> set ns.
          \<bar>start_time n\<bar>
            \<le> 2 ^ 40 * grid_unit (case g of None \<Rightarrow> processor_quantization_grid | Some k \<Rightarrow> k)
        \<and> \<bar>end_time n\<bar>
            \<le> 2 ^ 40 * grid_unit (case g of None \<Rightarrow> processor_quantization_grid | Some k \<Rightarrow> k))"
  then have g: "0 < G" "G \<le> 2 ^ 53"
    and r: "\<forall>n \<in> set ns. \<bar>start_time n\<bar> \<le> 2 ^ 40 * grid_unit G"
    by (simp_all add: G_def)
  have b: "1 / 2 ^ 52 \<le> grid_unit G" using g by (rule grid_unit_lower)
  have "quantize_notes ns g = Inr (map (quantize_note (grid_unit G)) ns)"
    using g by (simp add: quantize_notes_def Let_def G_def)
  moreover have "\<forall>q \<in> set (map (quantize_note (grid_unit G)) ns). start_time q < end_time q"
    using quantize_note_positive [OF b quantize_note_start_bound [OF b]] r by auto
  ultimately show "\<exists>qs. quantize_notes ns g = Inr qs \<and> length qs = length ns
            \<and> (\<forall>q \<in> set qs. start_time q < end_time q)"
    by simp
next
  show "\<forall>n \<in> set (tokens_to_notes T toks).
         \<bar>start_time n\<bar> \<le> 2 ^ 50 \<longrightarrow> start_time n < end_time n"
    unfolding tokens_to_notes_def by (rule tokens_loop_positive) simp
next
  fix st n assume "parse_note_token tok st = Some n"
  then show "start_time n = st" by (simp add: parse_note_token_times)
next
  fix st n assume "parse_note_token tok st = Some n" "\<bar>st\<bar> \<le> 2 ^ 50"
  then show "st < end_time n" by (simp add: parse_note_token_times)
next
  show "0 < duration_name_to_beats dn" by (rule duration_name_to_beats_pos)
qed

text \<open>
  A note too short for the sixteenth-note grid is clamped to one grid unit, and a token
  with an unknown duration name decodes to a note of one beat.
\<close>

theorem produced_notes_have_positive_length_witness:
  "quantize_notes
     [\<lparr>pitch = 60, start_time = 0, end_time = 1 / 16, velocity = 80,
       pitch_name = ''C4'', duration_name = ''quarter'', dynamic_name = ''mf''\<rparr>] (Some 16)
   = Inr [\<lparr>pitch = 60, start_time = 0, end_time = 1 / 4, velocity = 80,
           pitch_name = ''C4'', duration_name = ''sixteenth'', dynamic_name = ''mf''\<rparr>]
   \<and> \<bar>1 / 16 :: real\<bar> \<le> 2 ^ 40 * grid_unit 16
   \<and> (0::real) < 1 / 4
   \<and> tokens_to_notes (new_tokenizer None None) [''NOTE_C4_zzz_mf'']
   = [\<lparr>pitch = 60, start_time = 0, end_time = 1, velocity = 65,
       pitch_name = ''C4'', duration_name = ''zzz'', dynamic_name = ''mf''\<rparr>]
   \<and> (0::real) < 1
   \<and> 0 < duration_name_to_beats ''zzz''"
proof -
  have q: "quantize_notes
     [\<lparr>pitch = 60, start_time = 0, end_time = 1 / 16, velocity = 80,
       pitch_name = ''C4'', duration_name = ''quarter'', dynamic_name = ''mf''\<rparr>] (Some 16)
   = Inr [\<lparr>pitch = 60, start_time = 0, end_time = 1 / 4, velocity = 80,
           pitch_name = ''C4'', duration_name = ''sixteenth'', dynamic_name = ''mf''\<rparr>]"
    by (simp add: quantize_notes_def grid_unit_16 quantize_note_def py_round_def Let_def
        beats_to_duration_name_quarter_beat fl_simps)
  have d: "tokens_to_notes (new_tokenizer None None) [''NOTE_C4_zzz_mf'']
   = [\<lparr>pitch = 60, start_time = 0, end_time = 1, velocity = 65,
       pitch_name = ''C4'', duration_name = ''zzz'', dynamic_name = ''mf''\<rparr>]"
    by (simp add: tokens_to_notes_def startswith_def parse_note_token_def Let_def
        pitch_name_to_midi_C4 duration_name_to_beats_def name_duration_map_def
        dynamic_to_velocity_def dynamic_map_def fl_simps)
  show ?thesis
    using produced_notes_have_positive_length
      [where g = "Some 16" and dn = "''zzz''"
         and ns = "[\<lparr>pitch = 60, start_time = 0, end_time = 1 / 16, velocity = 80,
       pitch_name = ''C4'', duration_name = ''quarter'', dynamic_name = ''mf''\<rparr>]"
         and T = "new_tokenizer None None" and toks = "[''NOTE_C4_zzz_mf'']"]
    unfolding q d by (simp add: grid_unit_16)
qed

lemma fl_4e17: "fl 400000000000000000 = 400000000000000000"
  using fl_representable [of 762939453125 19] by simp

lemma fl_1e17: "fl 100000000000000000 = 100000000000000000"
  using fl_representable [of 762939453125 17] by simp

lemma fl_1e17_plus: "fl (400000000000000001 / 4) = 100000000000000000"
  by (subst fl_eval [where e = 56]) (simp_all add: py_round_def)

text \<open>
  The claim as first stated fails. With the grid \<open>- 16\<close> the grid unit is negative: a note
  of length 0 at beat 0.375 is returned with start and end both 0.5, and a note from beat
  1 to beat 0.5 is returned ending at 0.75, before its start. With the default grid, a
  note of length 0 at beat \<open>10 ^ 17\<close> is returned with its end equal to its start: the
  sum of the start and one grid unit rounds back to the start.
\<close>

theorem quantized_note_without_length_counterexample:
  "quantize_notes
     [\<lparr>pitch = 60, start_time = 3 / 8, end_time = 3 / 8, velocity = 80,
       pitch_name = ''C4'', duration_name = ''quarter'', dynamic_name = ''mf''\<rparr>,
      \<lparr>pitch = 62, start_time = 1, end_time = 1 / 2, velocity = 80,
       pitch_name = ''D4'', duration_name = ''quarter'', dynamic_name = ''mf''\<rparr>] (Some (- 16))
   = Inr [\<lparr>pitch = 60, start_time = 1 / 2, end_time = 1 / 2, velocity = 80,
           pitch_name = ''C4'', duration_name = ''quarter'', dynamic_name = ''mf''\<rparr>,
          \<lparr>pitch = 62, start_time = 1, end_time = 3 / 4, velocity = 80,
           pitch_name = ''D4'', duration_name = ''quarter'', dynamic_name = ''mf''\<rparr>]
   \<and> quantize_notes
     [\<lparr>pitch = 60, start_time = 100000000000000000, end_time = 100000000000000000,
       velocity = 80, pitch_name = ''C4'', duration_name = ''quarter'',
       dynamic_name = ''mf''\<rparr>] None
   = Inr [\<lparr>pitch = 60, start_time = 100000000000000000, end_time = 100000000000000000,
           velocity = 80, pitch_name = ''C4'', duration_name = ''sixteenth'',
           dynamic_name = ''mf''\<rparr>]"
  by (simp add: quantize_notes_def processor_quantization_grid_def grid_unit_16
      grid_unit_minus_16 quantize_note_def py_round_def Let_def
      beats_to_duration_name_quarter_beat beats_to_duration_name_0 beats_to_duration_name_neg
      fl_simps fl_4e17 fl_1e17 fl_1e17_plus)

subsection \<open>Decoding note tokens\<close>

lemma split_nonempty: "split c s \<noteq> []"
  by (induction s) (auto split: list.splits)

lemma split_Cons_other: "x \<noteq> c \<Longrightarrow> split c (x # xs) = (x # hd (split c xs)) # tl (split c xs)"
  using split_nonempty[of c xs] by (cases "split c xs") auto

lemma split_NOTE_prefix: "split CHR ''_'' (''NOTE_'' @ r) = ''NOTE'' # split CHR ''_'' r"
  by (simp add: split_Cons_other)

lemma startswith_NOTE_split:
  assumes "startswith token ''NOTE_''"
  shows "split CHR ''_'' token = ''NOTE'' # split CHR ''_'' (drop 5 token)"
proof -
  have "take (length ''NOTE_'') token = ''NOTE_''"
    using assms unfolding startswith_def .
  moreover have "length ''NOTE_'' = 5" by simp
  ultimately have "take 5 token = ''NOTE_''" by (simp only:)
  then have "''NOTE_'' @ drop 5 token = token"
    by (metis append_take_drop_id)
  then show ?thesis
    by (metis split_NOTE_prefix)
qed

lemma startswith_NOTE_dispatch:
  assumes "startswith token ''NOTE_''"
  shows "token \<notin> set [''[BOS]'', ''[EOS]'', ''[PAD]''] \<and> token \<noteq> ''BAR''
         \<and> \<not> startswith token ''REST_''"
  using assms by (auto simp: startswith_def)

lemma tokens_loop_NOTE:
  assumes "startswith token ''NOTE_''"
  shows "tokens_loop bpb (token # rest) ns ct cb =
     (case parse_note_token token ct of
        Some note \<Rightarrow> tokens_loop bpb rest (ns @ [note]) (end_time note) cb
      | None \<Rightarrow> tokens_loop bpb rest ns ct cb)"
  using assms startswith_NOTE_dispatch[OF assms] by simp

lemma tokens_loop_drop_skipped:
  assumes "\<And>ns ct cb. tokens_loop bpb (token # post) ns ct cb = tokens_loop bpb post ns ct cb"
  shows "tokens_loop bpb (pre @ token # post) ns ct cb = tokens_loop bpb (pre @ post) ns ct cb"
proof (induction pre arbitrary: ns ct cb)
  case Nil
  show ?case using assms by simp
next
  case (Cons t ts)
  show ?case by (simp add: Cons.IH split: option.splits)
qed

text \<open>
  Claim C7, as amended. During decoding, a \<^verbatim>\<open>NOTE_*\<close> token that does not split into
  exactly four underscore-separated fields, or whose pitch name is not recognized
  (\<open>pitch_name_to_midi\<close> raises), yields no note, and the decoded notes are those of the
  token sequence without it. A \<^verbatim>\<open>NOTE_*\<close> token with four fields and a recognized pitch
  name always yields a note: its dynamic name is taken as written, and a dynamic name
  outside the table gives the default velocity 65.
\<close>

theorem malformed_note_token_skipped:
  assumes "startswith token ''NOTE_''"
  shows "(length (split CHR ''_'' token) \<noteq> 4
            \<or> (\<exists>e. pitch_name_to_midi (split CHR ''_'' token ! 1) = Inl e)
          \<longrightarrow> parse_note_token token ct = None
              \<and> tokens_loop bpb (pre @ token # post) ns ct0 cb
                  = tokens_loop bpb (pre @ post) ns ct0 cb)
       \<and> (length (split CHR ''_'' token) = 4
            \<and> pitch_name_to_midi (split CHR ''_'' token ! 1) = Inr p
          \<longrightarrow> (\<exists>note. parse_note_token token ct = Some note
                \<and> pitch note = p
                \<and> dynamic_name note = split CHR ''_'' token ! 3
                \<and> velocity note
                    = (case map_of dynamic_map (split CHR ''_'' token ! 3) of
                         Some v \<Rightarrow> v | None \<Rightarrow> 65)
                \<and> tokens_loop bpb (token # post) ns ct cb
                    = tokens_loop bpb post (ns @ [note]) (end_time note) cb))"
proof (intro conjI impI)
  assume bad: "length (split CHR ''_'' token) \<noteq> 4
            \<or> (\<exists>e. pitch_name_to_midi (split CHR ''_'' token ! 1) = Inl e)"
  then have none: "parse_note_token token t = None" for t
    by (auto simp: parse_note_token_def Let_def)
  then show "parse_note_token token ct = None" .
  have "tokens_loop bpb (token # post) ms t b = tokens_loop bpb post ms t b" for ms t b
    by (simp del: tokens_loop.simps add: tokens_loop_NOTE[OF assms] none)
  then show "tokens_loop bpb (pre @ token # post) ns ct0 cb
                  = tokens_loop bpb (pre @ post) ns ct0 cb"
    by (rule tokens_loop_drop_skipped)
next
  assume ok: "length (split CHR ''_'' token) = 4
            \<and> pitch_name_to_midi (split CHR ''_'' token ! 1) = Inr p"
  have hd: "split CHR ''_'' token ! 0 = ''NOTE''"
    by (simp add: startswith_NOTE_split[OF assms])
  show "\<exists>note. parse_note_token token ct = Some note
                \<and> pitch note = p
                \<and> dynamic_name note = split CHR ''_'' token ! 3
                \<and> velocity note
                    = (case map_of dynamic_map (split CHR ''_'' token ! 3) of
                         Some v \<Rightarrow> v | None \<Rightarrow> 65)
                \<and> tokens_loop bpb (token # post) ns ct cb
                    = tokens_loop bpb post (ns @ [note]) (end_time note) cb"
    using ok hd
    by (simp del: tokens_loop.simps
        add: tokens_loop_NOTE[OF assms] parse_note_token_def Let_def dynamic_to_velocity_def)
qed

lemma pitch_name_to_midi_X99: "pitch_name_to_midi ''X99'' = Inl KeyError"
  by (simp add: pitch_name_to_midi_def py_int_char_def note_map_def)

lemma decode_C4_quarter_mf:
  "tokens_loop 4 [''NOTE_C4_quarter_mf''] [] 0 0
   = [\<lparr>pitch = 60, start_time = 0, end_time = 1, velocity = 65,
       pitch_name = ''C4'', duration_name = ''quarter'', dynamic_name = ''mf''\<rparr>]"
  by (simp add: startswith_def parse_note_token_def Let_def
        pitch_name_to_midi_C4 duration_name_to_beats_def name_duration_map_def
        dynamic_to_velocity_def dynamic_map_def fl_one)

text \<open>
  The invalid-pitch token of the repository's tests is skipped, and the token after it is
  decoded from time 0.
\<close>

theorem malformed_note_token_skipped_witness:
  "startswith ''NOTE_X99_quarter_mf'' ''NOTE_''
   \<and> pitch_name_to_midi (split CHR ''_'' ''NOTE_X99_quarter_mf'' ! 1) = Inl KeyError
   \<and> parse_note_token ''NOTE_X99_quarter_mf'' 0 = None
   \<and> tokens_loop 4 [''NOTE_X99_quarter_mf'', ''NOTE_C4_quarter_mf''] [] 0 0
     = [\<lparr>pitch = 60, start_time = 0, end_time = 1, velocity = 65,
         pitch_name = ''C4'', duration_name = ''quarter'', dynamic_name = ''mf''\<rparr>]"
proof -
  have s: "startswith ''NOTE_X99_quarter_mf'' ''NOTE_''"
    by (simp add: startswith_def)
  have p: "pitch_name_to_midi (split CHR ''_'' ''NOTE_X99_quarter_mf'' ! 1) = Inl KeyError"
    by (simp add: pitch_name_to_midi_X99)
  have "parse_note_token ''NOTE_X99_quarter_mf'' 0 = None
      \<and> tokens_loop 4 ([] @ ''NOTE_X99_quarter_mf'' # [''NOTE_C4_quarter_mf'']) [] 0 0
        = tokens_loop 4 ([] @ [''NOTE_C4_quarter_mf'']) [] 0 0"
    using malformed_note_token_skipped [OF s] p by blast
  then show ?thesis
    using s p by (simp del: tokens_loop.simps add: decode_C4_quarter_mf)
qed

text \<open>
  The claim as first stated fails: a \<^verbatim>\<open>NOTE_*\<close> token whose dynamic name is not in the
  table produces a note.
\<close>

theorem unknown_dynamic_counterexample:
  "map_of dynamic_map ''xyz'' = None
   \<and> tokens_to_notes (new_tokenizer None None) [''NOTE_C4_quarter_xyz'']
     = [\<lparr>pitch = 60, start_time = 0, end_time = 1, velocity = 65,
         pitch_name = ''C4'', duration_name = ''quarter'', dynamic_name = ''xyz''\<rparr>]"
  by (simp add: tokens_to_notes_def startswith_def parse_note_token_def Let_def
        pitch_name_to_midi_C4 duration_name_to_beats_def name_duration_map_def
        dynamic_to_velocity_def dynamic_map_def fl_one)

subsection \<open>Rest tokens\<close>

text \<open>
  \<open>py_min_key\<close> returns the first minimal element: an element smaller than everything
  before it and not larger than anything after it.
\<close>

lemma foldl_min_in: "foldl (\<lambda>best y. if f y < f best then y else best) b xs \<in> set (b # xs)"
  by (induction xs arbitrary: b) (auto split: if_splits)

lemma foldl_min_keep:
  "\<forall>y \<in> set xs. (f b :: real) \<le> f y \<Longrightarrow>
   foldl (\<lambda>best y. if f y < f best then y else best) b xs = b"
  by (induction xs) auto

lemma py_min_key_decomp:
  assumes pre: "\<forall>y \<in> set pre. f x < f y" and post: "\<forall>y \<in> set post. f x \<le> f y"
  shows "py_min_key f (pre @ x # post) = x"
proof (cases pre)
  case Nil
  then show ?thesis using post by (simp add: foldl_min_keep)
next
  case (Cons p ps)
  define b where "b = foldl (\<lambda>best y. if f y < f best then y else best) p ps"
  have "b \<in> set pre" unfolding b_def Cons using foldl_min_in[of f p ps] by simp
  then have "f x < f b" using pre by blast
  then show ?thesis
    using post by (simp add: Cons b_def[symmetric] foldl_min_keep)
qed

lemma py_min_key_sorted:
  assumes "sorted_wrt (<) xs" and "x \<in> set xs"
    and "\<forall>y \<in> set xs. f x < f y \<or> (f x = f y \<and> x \<le> y)"
  shows "py_min_key f xs = (x::real)"
proof -
  obtain pre post where xs: "xs = pre @ x # post"
    using assms(2) by (meson split_list)
  have lt: "\<forall>y \<in> set pre. y < x"
    using assms(1) unfolding xs by (simp add: sorted_wrt_append)
  have pre: "\<forall>y \<in> set pre. f x < f y"
  proof
    fix y assume y: "y \<in> set pre"
    then have "f x < f y \<or> (f x = f y \<and> x \<le> y)"
      using assms(3) unfolding xs by simp
    moreover have "y < x" using lt y by blast
    ultimately show "f x < f y" by linarith
  qed
  have post: "\<forall>y \<in> set post. f x \<le> f y"
  proof
    fix y assume "y \<in> set post"
    then have "f x < f y \<or> (f x = f y \<and> x \<le> y)"
      using assms(3) unfolding xs by simp
    then show "f x \<le> f y" by auto
  qed
  show ?thesis unfolding xs using pre post by (rule py_min_key_decomp)
qed

lemma beats_to_duration_name_nearest:
  assumes mem: "(v, name) \<in> set beats_duration_map"
    and nearest: "\<forall>(v', n') \<in> set beats_duration_map.
                    \<bar>fl (v - g)\<bar> < \<bar>fl (v' - g)\<bar> \<or> (\<bar>fl (v - g)\<bar> = \<bar>fl (v' - g)\<bar> \<and> v \<le> v')"
  shows "beats_to_duration_name g
         = (if \<bar>fl (g - v)\<bar> < fl (1 / 10) then name else ''quarter'')"
proof -
  have s: "sorted_wrt (<) (map fst beats_duration_map)"
    by (simp add: beats_duration_map_def)
  have v: "v \<in> set (map fst beats_duration_map)"
    using mem by force
  have n: "\<forall>y \<in> set (map fst beats_duration_map).
      \<bar>fl (v - g)\<bar> < \<bar>fl (y - g)\<bar> \<or> (\<bar>fl (v - g)\<bar> = \<bar>fl (y - g)\<bar> \<and> v \<le> y)"
    using nearest by fastforce
  have c: "py_min_key (\<lambda>x. \<bar>fl (x - g)\<bar>) (map fst beats_duration_map) = v"
    using s v n by (rule py_min_key_sorted)
  have "distinct (map fst beats_duration_map)"
    by (simp add: beats_duration_map_def)
  then have m: "map_of beats_duration_map v = Some name"
    using mem by simp
  show ?thesis
    by (simp add: beats_to_duration_name_def Let_def c m)
qed

text \<open>
  With a bar length of at least \<open>2 ^ - 52\<close> beats, a bar start and a note start both within
  \<open>2 ^ 51\<close> bars of time 0, every float addition of the bar length moves the bar start
  forward by at least half a bar, so the bar loop ends, having appended only \<^verbatim>\<open>BAR\<close>
  tokens.
\<close>

lemma bar_step:
  assumes bpb: "1 / 2 ^ 52 \<le> bpb" and c: "\<bar>cbs\<bar> \<le> 2 ^ 51 * bpb"
  shows "cbs + bpb / 2 \<le> fl (cbs + bpb)"
proof -
  have b0: "0 < bpb" using bpb by (smt (verit) divide_pos_pos zero_less_numeral zero_less_power)
  have t: "1 / 2 ^ 128 \<le> bpb / 75557863725914323419136"
    using tiny_le_grid [of bpb] bpb b0 by simp
  have c': "\<bar>cbs\<bar> \<le> 2251799813685248 * bpb" using c by simp
  have "\<bar>fl (cbs + bpb) - (cbs + bpb)\<bar> \<le> \<bar>cbs + bpb\<bar> / 2 ^ 53 + 1 / 2 ^ 128"
    by (rule fl_error_weak)
  hence "\<bar>fl (cbs + bpb) - (cbs + bpb)\<bar>
         \<le> \<bar>cbs + bpb\<bar> / 9007199254740992 + bpb / 75557863725914323419136"
    using t by simp
  moreover have "\<bar>cbs + bpb\<bar> \<le> 2251799813685249 * bpb" using c' b0 by linarith
  hence "\<bar>cbs + bpb\<bar> / 9007199254740992 \<le> 2251799813685249 * bpb / 9007199254740992"
    by (rule divide_right_mono) simp
  ultimately show ?thesis using b0 by linarith
qed

lemma bar_loop_terminates:
  assumes bpb: "1 / 2 ^ 52 \<le> bpb" and s: "\<bar>s\<bar> \<le> 2 ^ 51 * bpb"
  shows "\<bar>cbs\<bar> \<le> 2 ^ 51 * bpb \<Longrightarrow>
         \<exists>k cbs'. bar_loop bpb s toks cbs = Some (toks @ replicate k ''BAR'', cbs')
                  \<and> \<bar>cbs'\<bar> \<le> 2 ^ 51 * bpb"
proof (induction "nat \<lfloor>(s - cbs) / (bpb / 2)\<rfloor>" arbitrary: cbs toks rule: less_induct)
  case less
  have b0: "0 < bpb" using bpb by (smt (verit) divide_pos_pos zero_less_numeral zero_less_power)
  show ?case
  proof (cases "fl (cbs + bpb) \<le> s")
    case False
    then have "bar_loop bpb s toks cbs = Some (toks @ replicate 0 ''BAR'', cbs)"
      by (subst bar_loop.simps) simp
    then show ?thesis using less.prems by blast
  next
    case True
    define c' where "c' = fl (cbs + bpb)"
    have step: "cbs + bpb / 2 \<le> c'" unfolding c'_def using bpb less.prems by (rule bar_step)
    have le: "c' \<le> s" using True by (simp add: c'_def)
    have bound: "\<bar>c'\<bar> \<le> 2 ^ 51 * bpb" using step le less.prems s b0 by linarith
    have "(s - c') / (bpb / 2) \<le> ((s - cbs) - bpb / 2) / (bpb / 2)"
      using step b0 by (intro divide_right_mono) simp_all
    also have "\<dots> = (s - cbs) / (bpb / 2) - 1"
      using b0 by (simp add: diff_divide_distrib)
    finally have "(s - c') / (bpb / 2) \<le> (s - cbs) / (bpb / 2) - 1" .
    moreover have "0 \<le> (s - c') / (bpb / 2)" using le b0 by simp
    ultimately have "nat \<lfloor>(s - c') / (bpb / 2)\<rfloor> < nat \<lfloor>(s - cbs) / (bpb / 2)\<rfloor>"
      by linarith
    from less.hyps [OF this bound, of "toks @ [''BAR'']"]
    obtain k c'' where k: "bar_loop bpb s (toks @ [''BAR'']) c'
        = Some ((toks @ [''BAR'']) @ replicate k ''BAR'', c'')" "\<bar>c''\<bar> \<le> 2 ^ 51 * bpb"
      by blast
    have "bar_loop bpb s toks cbs = bar_loop bpb s (toks @ [''BAR'']) c'"
      using True by (subst bar_loop.simps) (simp add: c'_def)
    also have "\<dots> = Some (toks @ replicate (Suc k) ''BAR'', c'')"
      unfolding k by (simp add: replicate_append_same)
    finally show ?thesis using k(2) by blast
  qed
qed

lemma fl_1_tenth: "fl (39631676720860365 / 36028797018963968) = 2476979795053773 / 2251799813685248"
  by (subst fl_eval [where e = 0]) (simp_all add: py_round_def)

text \<open>
  Claim C6, as amended. During encoding with a bar length between \<open>2 ^ - 52\<close> and
  \<open>2 ^ 52\<close> beats, the current time, the note start and the current bar start within
  \<open>2 ^ 51\<close> bars of time 0 (so that the bar loop ends and no float operation overflows),
  when a gap larger than the tolerance precedes a note (the note starts after the float
  sum of the current time and 0.1), one rest token is emitted just before the note
  token, after the \<^verbatim>\<open>BAR\<close> tokens. The gap is the float difference of the note start and
  the current time. The rest token names the duration of the table whose float distance
  \<^verbatim>\<open>abs(x - gap)\<close> from the gap is least (of two equally distant, the shorter) when that
  distance is below the float 0.1, and is \<^verbatim>\<open>REST_quarter\<close> otherwise.
\<close>

theorem rest_token_uses_nearest_duration:
  assumes gap: "fl (current_time + fl (1 / 10)) < start_time note"
    and bpb: "1 / 2 ^ 52 \<le> bpb" "bpb \<le> 2 ^ 52"
    and time_range: "\<bar>current_time\<bar> \<le> 2 ^ 51 * bpb"
    and note_range: "\<bar>start_time note\<bar> \<le> 2 ^ 51 * bpb"
    and bar_range: "\<bar>current_bar_start\<bar> \<le> 2 ^ 51 * bpb"
    and mem: "(v, name) \<in> set beats_duration_map"
    and nearest: "\<forall>(v', n') \<in> set beats_duration_map.
           \<bar>fl (v - fl (start_time note - current_time))\<bar>
             < \<bar>fl (v' - fl (start_time note - current_time))\<bar>
         \<or> (\<bar>fl (v - fl (start_time note - current_time))\<bar>
               = \<bar>fl (v' - fl (start_time note - current_time))\<bar>
              \<and> v \<le> v')"
  shows "\<exists>k bar_start.
           notes_loop bpb (note # rest) toks current_time current_bar_start
           = notes_loop bpb rest
               (toks @ replicate k ''BAR''
                  @ [''REST_'' @ (if \<bar>fl (fl (start_time note - current_time) - v)\<bar> < fl (1 / 10)
                                  then name else ''quarter''),
                     create_note_token note])
               (end_time note) bar_start"
proof -
  obtain k cbs' where k: "bar_loop bpb (start_time note) toks current_bar_start
      = Some (toks @ replicate k ''BAR'', cbs')"
    using bar_loop_terminates [OF bpb(1) note_range bar_range] by blast
  have "create_rest_token (fl (start_time note - current_time))
      = ''REST_'' @ (if \<bar>fl (fl (start_time note - current_time) - v)\<bar> < fl (1 / 10)
                                  then name else ''quarter'')"
    unfolding create_rest_token_def beats_to_duration_name_nearest [OF mem nearest] ..
  then have "notes_loop bpb (note # rest) toks current_time current_bar_start
           = notes_loop bpb rest
               (toks @ replicate k ''BAR''
                  @ [''REST_'' @ (if \<bar>fl (fl (start_time note - current_time) - v)\<bar> < fl (1 / 10)
                                  then name else ''quarter''),
                     create_note_token note])
               (end_time note) cbs'"
    using gap by (simp add: k)
  then show ?thesis by blast
qed

text \<open>
  The gap and its distances are float differences: 1.6 - 0.2 is 1.4000000000000001, less
  than 0.1 away from 1.5, while 2.0 - 0.6 is 1.4, just over 0.1 away from 1.5.
\<close>

lemma rest_token_rounding:
  "create_rest_token (fl (fl (8 / 5) - fl (1 / 5))) = ''REST_dotted_quarter''"
  "create_rest_token (fl (2 - fl (3 / 5))) = ''REST_quarter''"
  by code_simp+

lemma beats_to_duration_name_5_2: "beats_to_duration_name (5 / 2) = ''quarter''"
  by (simp add: beats_to_duration_name_def beats_duration_map_def fl_simps fl_tenth)

text \<open>A gap of two beats before a note at beat 3 gives \<^verbatim>\<open>REST_half\<close>.\<close>

theorem rest_token_uses_nearest_duration_witness:
  "fl (1 + fl (1 / 10)) < 3
   \<and> (1::real) / 2 ^ 52 \<le> 4 \<and> (4::real) \<le> 2 ^ 52
   \<and> (2, ''half'') \<in> set beats_duration_map
   \<and> fl (3 - 1) = 2
   \<and> (\<exists>k bar_start.
        notes_loop 4
          [\<lparr>pitch = 64, start_time = 3, end_time = 4, velocity = 80,
            pitch_name = ''E4'', duration_name = ''quarter'', dynamic_name = ''mf''\<rparr>]
          [''[BOS]'', ''NOTE_C4_quarter_mf''] 1 0
        = notes_loop 4 []
            ([''[BOS]'', ''NOTE_C4_quarter_mf''] @ replicate k ''BAR''
               @ [''REST_half'', ''NOTE_E4_quarter_mf''])
            4 bar_start)"
proof -
  let ?note = "\<lparr>pitch = 64, start_time = 3, end_time = 4, velocity = 80,
            pitch_name = ''E4'', duration_name = ''quarter'', dynamic_name = ''mf''\<rparr>"
  have gap: "fl (1 + fl (1 / 10)) < start_time ?note"
    by (simp add: fl_tenth fl_1_tenth)
  have bpb: "(1::real) / 2 ^ 52 \<le> 4" "(4::real) \<le> 2 ^ 52" by simp_all
  have time_range: "\<bar>1::real\<bar> \<le> 2 ^ 51 * 4" by simp
  have note_range: "\<bar>start_time ?note\<bar> \<le> 2 ^ 51 * 4" by simp
  have bar_range: "\<bar>0::real\<bar> \<le> 2 ^ 51 * 4" by simp
  have mem: "(2, ''half'') \<in> set beats_duration_map"
    by (simp add: beats_duration_map_def)
  have g: "fl (3 - 1) = 2" by (simp add: fl_simps)
  have nearest: "\<forall>(v', n') \<in> set beats_duration_map.
           \<bar>fl (2 - fl (start_time ?note - 1))\<bar> < \<bar>fl (v' - fl (start_time ?note - 1))\<bar>
         \<or> (\<bar>fl (2 - fl (start_time ?note - 1))\<bar> = \<bar>fl (v' - fl (start_time ?note - 1))\<bar>
              \<and> 2 \<le> v')"
    by (simp add: beats_duration_map_def fl_simps)
  show ?thesis
    using rest_token_uses_nearest_duration [OF gap bpb time_range note_range bar_range mem nearest,
        where rest = "[]" and toks = "[''[BOS]'', ''NOTE_C4_quarter_mf'']"]
      mem gap
    by (simp add: create_note_token_def fl_simps fl_tenth)
qed

text \<open>
  The claim as first stated fails: a gap of 2.5 beats is within tolerance of no named
  duration, and the rest token emitted is \<^verbatim>\<open>REST_quarter\<close>, not \<^verbatim>\<open>REST_sixteenth\<close>.
\<close>

theorem rest_fallback_counterexample:
  "list_all (\<lambda>v. 1 / 10 \<le> \<bar>5 / 2 - v\<bar>) (map fst beats_duration_map)
   \<and> create_rest_token (5 / 2) = ''REST_quarter''
   \<and> notes_to_tokens (new_tokenizer None None)
        [\<lparr>pitch = 60, start_time = 0, end_time = 1, velocity = 80,
          pitch_name = ''C4'', duration_name = ''quarter'', dynamic_name = ''mf''\<rparr>,
         \<lparr>pitch = 64, start_time = 7 / 2, end_time = 9 / 2, velocity = 80,
          pitch_name = ''E4'', duration_name = ''quarter'', dynamic_name = ''mf''\<rparr>]
     = Some [''[BOS]'', ''NOTE_C4_quarter_mf'', ''REST_quarter'', ''NOTE_E4_quarter_mf'',
             ''[EOS]'']"
  by (simp add: beats_duration_map_def create_rest_token_def beats_to_duration_name_5_2
      notes_to_tokens_def new_tokenizer_def default_midi_config_def bar_loop.simps
      create_note_token_def fl_simps fl_tenth fl_tenth_fl fl_1_tenth)

subsection \<open>The vocabulary\<close>

lemma fold_fold_concat: "fold (\<lambda>x. fold f (g x)) xs = fold f (concat (map g xs))"
  by (induction xs) (auto simp: fun_eq_iff)

lemma fold_limit_step:
  "0 \<le> c \<Longrightarrow> fold (limit_step limit) ts (v, c)
     = (v @ take (nat (limit - c)) ts, c + int (min (nat (limit - c)) (length ts)))"
proof (induction ts arbitrary: v c)
  case Nil
  then show ?case by simp
next
  case (Cons t ts)
  show ?case
  proof (cases "c < limit")
    case True
    then have n: "nat (limit - c) = Suc (nat (limit - (c + 1)))" by simp
    have c1: "0 \<le> c + 1" using Cons.prems by simp
    have "fold (limit_step limit) (t # ts) (v, c)
        = fold (limit_step limit) ts (v @ [t], c + 1)"
      using True by (simp add: limit_step_def)
    also have "\<dots> = ((v @ [t]) @ take (nat (limit - (c + 1))) ts,
        (c + 1) + int (min (nat (limit - (c + 1))) (length ts)))"
      by (rule Cons.IH[OF c1])
    also have "\<dots> = (v @ take (nat (limit - c)) (t # ts),
        c + int (min (nat (limit - c)) (length (t # ts))))"
      unfolding n by simp
    finally show ?thesis .
  next
    case False
    then have z: "nat (limit - c) = 0" by simp
    have stay: "fold (limit_step limit) us (w, c) = (w, c)" for us w
      using False by (induction us) (auto simp: limit_step_def)
    show ?thesis unfolding stay z by simp
  qed
qed

lemma add_note_tokens_eq:
  "add_note_tokens cfg v =
     v @ take (nat ((case max_vocab_size cfg of None \<Rightarrow> 2000 | Some m \<Rightarrow> m) - 200))
              (note_combinations cfg)"
proof -
  have step: "add_note_step limit p d y = limit_step limit (note_token p d y)" for limit p d y
    by (simp add: fun_eq_iff add_note_step_def limit_step_def)
  have flat: "fold (\<lambda>p. fold (\<lambda>d. fold (\<lambda>y. add_note_step limit p d y) (dynamics cfg))
                                (durations cfg)) (get_pitch_names cfg)
      = fold (limit_step limit) (note_combinations cfg)" for limit
    unfolding step note_combinations_def
    by (simp add: fold_fold_concat[symmetric] fold_map o_def)
  show ?thesis
    by (simp add: add_note_tokens_def Let_def flat fold_limit_step)
qed

lemma fold_snoc_map: "fold (\<lambda>x acc. acc @ [g x]) xs v = v @ map g xs"
  by (induction xs arbitrary: v) auto

lemma add_rest_tokens_eq: "add_rest_tokens cfg v = v @ rest_token_list cfg"
  by (simp add: add_rest_tokens_def rest_token_list_def fold_snoc_map)

lemma add_pattern_tokens_eq: "add_pattern_tokens cfg v = v @ pattern_token_list cfg"
proof -
  have "fold (\<lambda>entry. fold (\<lambda>p acc. acc @ [''PATTERN_'' @ upper p]) (snd entry)) es w
      = w @ concat (map (\<lambda>entry. map (\<lambda>p. ''PATTERN_'' @ upper p) (snd entry)) es)"
    for es :: "(string \<times> string list) list" and w
    by (induction es arbitrary: w) (auto simp: fold_snoc_map)
  then show ?thesis by (simp add: add_pattern_tokens_def pattern_token_list_def)
qed

lemma build_vocab_list_eq:
  "build_vocab_list cfg =
     special_tokens @ structural_tokens @ note_token_list cfg @ rest_token_list cfg
       @ pattern_token_list cfg @ control_tokens"
  by (simp add: build_vocab_list_def add_control_tokens_def add_pattern_tokens_eq
      add_rest_tokens_eq add_note_tokens_eq add_structural_tokens_def add_special_tokens_def
      note_token_list_def)

lemma py_enumerate_snoc: "py_enumerate (v @ [x]) = py_enumerate v @ [(int (length v), x)]"
  by (simp add: py_enumerate_def)

lemma build_token_to_id_snoc:
  "build_token_to_id (v @ [x]) = AList.update x (int (length v)) (build_token_to_id v)"
  by (simp add: build_token_to_id_def py_enumerate_snoc)

lemma build_token_to_id_Nil: "build_token_to_id [] = []"
  by (simp add: build_token_to_id_def py_enumerate_def)

lemma map_of_build_snoc:
  "map_of (build_token_to_id (v @ [x])) = (map_of (build_token_to_id v))(x \<mapsto> int (length v))"
  by (simp add: build_token_to_id_snoc update_conv')

lemma map_of_build_None: "t \<notin> set v \<Longrightarrow> map_of (build_token_to_id v) t = None"
  by (induction v rule: rev_induct) (auto simp: map_of_build_snoc build_token_to_id_Nil)

text \<open>A token is mapped to the index of its last occurrence.\<close>

lemma map_of_build_last:
  "t \<notin> set post \<Longrightarrow> map_of (build_token_to_id (pre @ t # post)) t = Some (int (length pre))"
proof (induction post rule: rev_induct)
  case Nil
  show ?case by (simp add: map_of_build_snoc)
next
  case (snoc x xs)
  have "map_of (build_token_to_id ((pre @ t # xs) @ [x])) t = Some (int (length pre))"
    unfolding map_of_build_snoc using snoc by simp
  then show ?case by simp
qed

lemma map_of_build_member:
  assumes "t \<in> set v"
  shows "\<exists>i. map_of (build_token_to_id v) t = Some i"
proof -
  obtain pre post where "v = pre @ t # post" and "t \<notin> set post"
    using assms by (meson split_list_last)
  then show ?thesis using map_of_build_last by blast
qed

lemma update_new_key: "k \<notin> fst ` set al \<Longrightarrow> AList.update k v al = al @ [(k, v)]"
  by (induction al) auto

lemma build_token_to_id_distinct:
  "distinct v \<Longrightarrow> build_token_to_id v = zip v (map int [0..<length v])"
proof (induction v rule: rev_induct)
  case Nil
  show ?case by (simp add: build_token_to_id_Nil)
next
  case (snoc x xs)
  then have ih: "build_token_to_id xs = zip xs (map int [0..<length xs])" by simp
  have "x \<notin> fst ` set (zip xs (map int [0..<length xs]))"
    using snoc.prems by (auto dest: set_zip_leftD)
  then show ?case
    by (simp add: build_token_to_id_snoc ih update_new_key)
qed

lemma fold_update_swap:
  "distinct (map fst acc @ map snd al) \<Longrightarrow>
   fold (\<lambda>(token, idx). AList.update idx token) al acc = acc @ map (\<lambda>(t, i). (i, t)) al"
proof (induction al arbitrary: acc)
  case Nil
  show ?case by simp
next
  case (Cons a al)
  obtain t i where a: "a = (t, i)" by (cases a)
  have new: "i \<notin> fst ` set acc" using Cons.prems by (auto simp: a)
  have "distinct (map fst (acc @ [(i, t)]) @ map snd al)"
    using Cons.prems by (auto simp: a)
  from Cons.IH[OF this] show ?case
    by (simp add: a update_new_key[OF new])
qed

lemma build_id_to_token_distinct:
  "distinct v \<Longrightarrow>
   build_id_to_token (build_token_to_id v) = zip (map int [0..<length v]) v"
proof -
  assume d: "distinct v"
  have ids: "distinct (map int [0..<length v])"
    by (simp add: distinct_map inj_on_def)
  have "map snd (zip v (map int [0..<length v])) = map int [0..<length v]"
    by simp
  then have "distinct (map fst [] @ map snd (zip v (map int [0..<length v])))"
    using ids by simp
  then have "build_id_to_token (zip v (map int [0..<length v]))
      = map (\<lambda>(t, i). (i, t)) (zip v (map int [0..<length v]))"
    unfolding build_id_to_token_def by (simp add: fold_update_swap)
  also have "\<dots> = zip (map int [0..<length v]) v"
    by (simp add: zip_commute[of "map int [0..<length v]" v] prod.case_distrib case_prod_unfold)
  finally show ?thesis by (simp add: build_token_to_id_distinct[OF d])
qed

lemma special_in_vocab: "t \<in> set special_tokens \<Longrightarrow> t \<in> set (build_vocab_list cfg)"
  by (simp add: build_vocab_list_eq)

lemma unk_mapped: "\<exists>u. map_of (token_to_id (build_vocabulary cfg)) ''[UNK]'' = Some u"
proof -
  have "''[UNK]'' \<in> set (build_vocab_list cfg)"
    by (rule special_in_vocab) (simp add: special_tokens_def)
  then show ?thesis
    by (simp add: build_vocabulary_def Let_def map_of_build_member)
qed

lemma encode_token_total: "\<exists>i. encode_token (build_vocabulary cfg) t = Inr i"
  using unk_mapped[of cfg] by (auto simp: encode_token_def)

lemma encode_tokens_total: "\<exists>ids. encode_tokens (build_vocabulary cfg) ts = Inr ids"
proof (induction ts)
  case Nil
  show ?case by simp
next
  case (Cons t ts)
  then show ?case using encode_token_total[of cfg t] by auto
qed

lemma distinct_vocab_roundtrip:
  assumes d: "distinct (build_vocab_list cfg)" and i: "i < length (build_vocab_list cfg)"
  shows "encode_token (build_vocabulary cfg) (build_vocab_list cfg ! i) = Inr (int i)"
    and "decode_token (build_vocabulary cfg) (int i) = build_vocab_list cfg ! i"
proof -
  let ?v = "build_vocab_list cfg"
  have len: "length ?v = length (map int [0..<length ?v])" by simp
  have "map_of (zip ?v (map int [0..<length ?v])) (?v ! i) = Some (map int [0..<length ?v] ! i)"
    using map_of_zip_nth[OF len d] i by simp
  then have e: "map_of (token_to_id (build_vocabulary cfg)) (?v ! i) = Some (int i)"
    using i by (simp add: build_vocabulary_def Let_def build_token_to_id_distinct[OF d])
  show "encode_token (build_vocabulary cfg) (?v ! i) = Inr (int i)"
    using unk_mapped[of cfg] e by (auto simp: encode_token_def)
  have ids: "distinct (map int [0..<length ?v])"
    by (simp add: distinct_map inj_on_def)
  have "map_of (zip (map int [0..<length ?v]) ?v) (map int [0..<length ?v] ! i) = Some (?v ! i)"
    using map_of_zip_nth[OF len[symmetric] ids] i by simp
  then show "decode_token (build_vocabulary cfg) (int i) = ?v ! i"
    using i by (simp add: decode_token_def build_vocabulary_def Let_def
        build_id_to_token_distinct[OF d])
qed

lemma first_separator_unique:
  assumes "c \<notin> set a" "c \<notin> set a'" and eq: "a @ c # r = a' @ c # r'"
  shows "a = a' \<and> r = r'"
proof -
  have tw: "c \<notin> set u \<Longrightarrow> takeWhile (\<lambda>x. x \<noteq> c) (u @ c # w) = u" for u w
    by (induction u) auto
  have "takeWhile (\<lambda>x. x \<noteq> c) (a @ c # r) = a"
    using assms(1) by (rule tw)
  moreover have "takeWhile (\<lambda>x. x \<noteq> c) (a' @ c # r') = a'"
    using assms(2) by (rule tw)
  ultimately have "a = a'" using eq by simp
  then show ?thesis using eq by simp
qed

lemma note_token_inject:
  assumes "CHR ''_'' \<notin> set p" "CHR ''_'' \<notin> set p'" "CHR ''_'' \<notin> set y" "CHR ''_'' \<notin> set y'"
    and eq: "note_token p d y = note_token p' d' y'"
  shows "p = p' \<and> d = d' \<and> y = y'"
proof -
  have "p @ CHR ''_'' # (d @ CHR ''_'' # y) = p' @ CHR ''_'' # (d' @ CHR ''_'' # y')"
    using eq by (simp add: note_token_def)
  then have pr: "p = p' \<and> d @ CHR ''_'' # y = d' @ CHR ''_'' # y'"
    by (rule first_separator_unique[OF assms(1) assms(2)])
  then have r: "d @ CHR ''_'' # y = d' @ CHR ''_'' # y'" ..
  have ry: "CHR ''_'' \<notin> set (rev y)" "CHR ''_'' \<notin> set (rev y')"
    using assms(3,4) by simp_all
  have "rev (d @ CHR ''_'' # y) = rev (d' @ CHR ''_'' # y')"
    using r by (rule arg_cong)
  then have "rev y @ CHR ''_'' # rev d = rev y' @ CHR ''_'' # rev d'"
    by simp
  then have "rev y = rev y' \<and> rev d = rev d'"
    by (rule first_separator_unique[OF ry])
  then show ?thesis using pr by simp
qed

lemma product_map_concat:
  "map (\<lambda>(d, y). g d y) (List.product ds ys) = concat (map (\<lambda>d. map (g d) ys) ds)"
  by (induction ds) (auto simp: o_def)

lemma note_combinations_product:
  "note_combinations cfg =
     map (\<lambda>(p, d, y). note_token p d y)
         (List.product (get_pitch_names cfg) (List.product (durations cfg) (dynamics cfg)))"
proof -
  have "map (\<lambda>(p, d, y). note_token p d y) (List.product ps X)
      = concat (map (\<lambda>p. map (\<lambda>(d, y). note_token p d y) X) ps)" for ps X
    by (induction ps) (auto simp: o_def)
  then show ?thesis
    by (simp add: note_combinations_def product_map_concat)
qed

lemma note_combinations_distinct:
  assumes "distinct (get_pitch_names cfg)" "distinct (durations cfg)" "distinct (dynamics cfg)"
    and "\<forall>p \<in> set (get_pitch_names cfg). CHR ''_'' \<notin> set p"
    and "\<forall>y \<in> set (dynamics cfg). CHR ''_'' \<notin> set y"
  shows "distinct (note_combinations cfg)"
proof -
  have "inj_on (\<lambda>(p, d, y). note_token p d y)
      (set (List.product (get_pitch_names cfg) (List.product (durations cfg) (dynamics cfg))))"
  proof (rule inj_onI)
    fix a b
    assume a: "a \<in> set (List.product (get_pitch_names cfg)
                  (List.product (durations cfg) (dynamics cfg)))"
      and b: "b \<in> set (List.product (get_pitch_names cfg)
                  (List.product (durations cfg) (dynamics cfg)))"
      and e: "(case a of (p, d, y) \<Rightarrow> note_token p d y)
            = (case b of (p, d, y) \<Rightarrow> note_token p d y)"
    obtain p d y where a': "a = (p, d, y)" by (cases a) auto
    obtain p' d' y' where b': "b = (p', d', y')" by (cases b) auto
    have "CHR ''_'' \<notin> set p" "CHR ''_'' \<notin> set y" using a assms(4,5) by (auto simp: a')
    moreover have "CHR ''_'' \<notin> set p'" "CHR ''_'' \<notin> set y'"
      using b assms(4,5) by (auto simp: b')
    moreover have "note_token p d y = note_token p' d' y'" using e by (simp add: a' b')
    ultimately have "p = p' \<and> d = d' \<and> y = y'" by (intro note_token_inject)
    then show "a = b" by (simp add: a' b')
  qed
  then show ?thesis
    unfolding note_combinations_product
    by (simp add: distinct_map distinct_product assms(1,2,3))
qed

lemma length_note_combinations:
  "length (note_combinations cfg)
     = length (get_pitch_names cfg) * (length (durations cfg) * length (dynamics cfg))"
  by (simp add: note_combinations_product)

lemma note_token_list_prefix: "t \<in> set (note_token_list cfg) \<Longrightarrow> startswith t ''NOTE_''"
proof -
  assume "t \<in> set (note_token_list cfg)"
  then have "t \<in> set (note_combinations cfg)"
    unfolding note_token_list_def by (rule in_set_takeD)
  then show ?thesis
    by (auto simp: note_combinations_def startswith_def note_token_def)
qed

lemma default_pitch_names:
  "get_pitch_names default_config =
     [''C3'', ''C#3'', ''D3'', ''D#3'', ''E3'', ''F3'', ''F#3'', ''G3'', ''G#3'', ''A3'', ''A#3'', ''B3'',
      ''C4'', ''C#4'', ''D4'', ''D#4'', ''E4'', ''F4'', ''F#4'', ''G4'', ''G#4'', ''A4'', ''A#4'', ''B4'',
      ''C5'', ''C#5'', ''D5'', ''D#5'', ''E5'', ''F5'', ''F#5'', ''G5'', ''G#5'', ''A5'', ''A#5'', ''B5'',
      ''C6'', ''C#6'', ''D6'', ''D#6'', ''E6'', ''F6'', ''F#6'', ''G6'', ''G#6'', ''A6'', ''A#6'', ''B6'']"
  by (simp add: get_pitch_names_def default_config_def range2_def str_int_def upto_rec1)

lemma default_rest_tokens:
  "rest_token_list default_config =
     [''REST_sixteenth'', ''REST_eighth'', ''REST_quarter'', ''REST_half'', ''REST_whole'',
      ''REST_dotted_quarter'', ''REST_dotted_half'']"
  by (simp add: rest_token_list_def default_config_def replace_def)

lemma default_pattern_tokens:
  "pattern_token_list default_config =
     [''PATTERN_SCALE_UP'', ''PATTERN_SCALE_DOWN'', ''PATTERN_CHROMATIC_UP'',
      ''PATTERN_CHROMATIC_DOWN'', ''PATTERN_STEP'', ''PATTERN_SKIP'', ''PATTERN_LEAP'',
      ''PATTERN_OCTAVE'', ''PATTERN_ARPEGGIO_MAJOR'', ''PATTERN_ARPEGGIO_MINOR'',
      ''PATTERN_ARPEGGIO_DIM'', ''PATTERN_ARPEGGIO_AUG'', ''PATTERN_SYNCOPATED'',
      ''PATTERN_STEADY'', ''PATTERN_ACCELERANDO'', ''PATTERN_RITARDANDO'']"
  by (simp add: pattern_token_list_def default_config_def upper_def upper_char_def)

lemma default_note_combinations_distinct: "distinct (note_combinations default_config)"
proof (rule note_combinations_distinct)
  show "distinct (get_pitch_names default_config)"
    unfolding default_pitch_names by simp
  show "\<forall>p \<in> set (get_pitch_names default_config). CHR ''_'' \<notin> set p"
    unfolding default_pitch_names by simp
  show "distinct (durations default_config)" by (simp add: default_config_def)
  show "distinct (dynamics default_config)" by (simp add: default_config_def)
  show "\<forall>y \<in> set (dynamics default_config). CHR ''_'' \<notin> set y"
    by (simp add: default_config_def)
qed

lemma default_other_tokens_distinct:
  "distinct (special_tokens @ structural_tokens @ rest_token_list default_config
       @ pattern_token_list default_config @ control_tokens)"
  unfolding default_rest_tokens default_pattern_tokens special_tokens_def
    structural_tokens_def control_tokens_def
  by simp

lemma default_other_tokens_not_notes:
  "\<forall>t \<in> set (special_tokens @ structural_tokens @ rest_token_list default_config
       @ pattern_token_list default_config @ control_tokens). \<not> startswith t ''NOTE_''"
  unfolding default_rest_tokens default_pattern_tokens special_tokens_def
    structural_tokens_def control_tokens_def
  by (simp add: startswith_def)

lemma default_vocab_distinct: "distinct (build_vocab_list default_config)"
proof -
  have n: "distinct (note_token_list default_config)"
    unfolding note_token_list_def using default_note_combinations_distinct by simp
  have disj: "set (note_token_list default_config)
      \<inter> set (special_tokens @ structural_tokens @ rest_token_list default_config
       @ pattern_token_list default_config @ control_tokens) = {}"
    using note_token_list_prefix default_other_tokens_not_notes by blast
  show ?thesis
    unfolding build_vocab_list_eq
    using n disj default_other_tokens_distinct by auto
qed

lemma default_vocab_length: "length (build_vocab_list default_config) = 1860"
proof -
  have "length (note_combinations default_config) = 2016"
    unfolding length_note_combinations default_pitch_names
    by (simp add: default_config_def)
  then have "length (note_token_list default_config) = 1800"
    by (simp add: note_token_list_def default_config_def)
  then show ?thesis
    unfolding build_vocab_list_eq default_rest_tokens default_pattern_tokens
    by (simp add: special_tokens_def structural_tokens_def control_tokens_def)
qed

lemma vocab_new_vocabulary:
  "vocab (new_vocabulary cfg)
     = build_vocab_list (case cfg of None \<Rightarrow> default_config | Some c \<Rightarrow> c)"
  by (simp add: new_vocabulary_def build_vocabulary_def Let_def)

text \<open>
  Claim C2. In the vocabulary built from the default configuration (1860 tokens, no token
  twice), every token \<open>t\<close> has an id in \<open>0..1859\<close> with
  \<open>decode_token (encode_token t) = t\<close>, and every id in that range decodes to a token of
  the vocabulary that encodes back to the id: the two maps are inverse bijections between
  the tokens and the ids \<open>0..size-1\<close>.
\<close>

theorem default_vocabulary_bijection:
  "vocab_size (new_vocabulary None) = 1860
   \<and> distinct (vocab (new_vocabulary None))
   \<and> (\<forall>t \<in> set (vocab (new_vocabulary None)).
        \<exists>i. encode_token (new_vocabulary None) t = Inr i \<and> 0 \<le> i \<and> i < 1860
            \<and> decode_token (new_vocabulary None) i = t)
   \<and> (\<forall>i. 0 \<le> i \<and> i < 1860 \<longrightarrow>
        decode_token (new_vocabulary None) i \<in> set (vocab (new_vocabulary None))
        \<and> encode_token (new_vocabulary None) (decode_token (new_vocabulary None) i) = Inr i)"
proof (intro conjI ballI allI impI)
  let ?v = "build_vocab_list default_config"
  have V: "new_vocabulary None = build_vocabulary default_config"
    by (simp add: new_vocabulary_def)
  have v: "vocab (new_vocabulary None) = ?v"
    by (simp add: vocab_new_vocabulary)
  show "vocab_size (new_vocabulary None) = 1860"
    by (simp add: vocab_size_def v default_vocab_length)
  show "distinct (vocab (new_vocabulary None))"
    by (simp add: v default_vocab_distinct)
  {
    fix t assume "t \<in> set (vocab (new_vocabulary None))"
    then obtain k where k: "k < length ?v" and t: "?v ! k = t"
      unfolding v by (auto simp: in_set_conv_nth)
    have "encode_token (new_vocabulary None) t = Inr (int k)"
      and "decode_token (new_vocabulary None) (int k) = t"
      unfolding V using distinct_vocab_roundtrip[OF default_vocab_distinct k] t by simp_all
    moreover have "0 \<le> int k" "int k < 1860" using k by (simp_all add: default_vocab_length)
    ultimately show "\<exists>i. encode_token (new_vocabulary None) t = Inr i \<and> 0 \<le> i \<and> i < 1860
            \<and> decode_token (new_vocabulary None) i = t"
      by blast
  }
  {
    fix i :: int assume i: "0 \<le> i \<and> i < 1860"
    then have "nat i < 1860" by linarith
    then have k: "nat i < length ?v" by (simp add: default_vocab_length)
    have d: "decode_token (new_vocabulary None) i = ?v ! nat i"
      unfolding V using distinct_vocab_roundtrip(2)[OF default_vocab_distinct k] i by simp
    show "decode_token (new_vocabulary None) i \<in> set (vocab (new_vocabulary None))"
      unfolding d v using k by simp
    show "encode_token (new_vocabulary None) (decode_token (new_vocabulary None) i) = Inr i"
      unfolding d unfolding V
      using distinct_vocab_roundtrip(1)[OF default_vocab_distinct k] i by simp
  }
qed

text \<open>
  Whatever the configuration, no later family produces a token that starts with a bracket,
  so the special tokens keep the ids of their positions.
\<close>

lemma family_heads:
  "t \<in> set (structural_tokens @ note_token_list cfg @ rest_token_list cfg
              @ pattern_token_list cfg @ control_tokens) \<Longrightarrow> hd t \<noteq> CHR ''[''"
proof -
  have n: "hd t = CHR ''N''" if "t \<in> set (note_token_list cfg)"
    using note_token_list_prefix[OF that]
    by (cases t) (auto simp: startswith_def)
  have r: "hd t = CHR ''R''" if "t \<in> set (rest_token_list cfg)"
    using that by (auto simp: rest_token_list_def)
  have p: "hd t = CHR ''P''" if "t \<in> set (pattern_token_list cfg)"
    using that by (auto simp: pattern_token_list_def)
  have s: "hd t \<noteq> CHR ''[''" if "t \<in> set (structural_tokens @ control_tokens)"
    using that by (auto simp: structural_tokens_def control_tokens_def)
  assume "t \<in> set (structural_tokens @ note_token_list cfg @ rest_token_list cfg
              @ pattern_token_list cfg @ control_tokens)"
  then show ?thesis using n r p s by auto
qed

lemma special_token_ids:
  "map_of (token_to_id (build_vocabulary cfg)) ''[BOS]'' = Some 1"
  "map_of (token_to_id (build_vocabulary cfg)) ''[EOS]'' = Some 2"
  "map_of (token_to_id (build_vocabulary cfg)) ''[UNK]'' = Some 4"
proof -
  let ?fam = "structural_tokens @ note_token_list cfg @ rest_token_list cfg
              @ pattern_token_list cfg @ control_tokens"
  have nf: "''['' @ s \<notin> set ?fam" for s
    using family_heads[of "''['' @ s" cfg] by auto
  have t2i: "token_to_id (build_vocabulary cfg) = build_token_to_id (build_vocab_list cfg)"
    by (simp add: build_vocabulary_def Let_def)
  have "build_vocab_list cfg = [''[PAD]''] @ ''[BOS]'' # ([''[EOS]'', ''[MASK]'', ''[UNK]'', ''[SEP]''] @ ?fam)"
    by (simp add: build_vocab_list_eq special_tokens_def)
  moreover have "''[BOS]'' \<notin> set ([''[EOS]'', ''[MASK]'', ''[UNK]'', ''[SEP]''] @ ?fam)"
    using nf[of "''BOS]''"] by simp
  ultimately show "map_of (token_to_id (build_vocabulary cfg)) ''[BOS]'' = Some 1"
    unfolding t2i using map_of_build_last[of "''[BOS]''" _ "[''[PAD]'']"] by simp
  have "build_vocab_list cfg = [''[PAD]'', ''[BOS]''] @ ''[EOS]'' # ([''[MASK]'', ''[UNK]'', ''[SEP]''] @ ?fam)"
    by (simp add: build_vocab_list_eq special_tokens_def)
  moreover have "''[EOS]'' \<notin> set ([''[MASK]'', ''[UNK]'', ''[SEP]''] @ ?fam)"
    using nf[of "''EOS]''"] by simp
  ultimately show "map_of (token_to_id (build_vocabulary cfg)) ''[EOS]'' = Some 2"
    unfolding t2i using map_of_build_last[of "''[EOS]''" _ "[''[PAD]'', ''[BOS]'']"] by simp
  have "build_vocab_list cfg
      = [''[PAD]'', ''[BOS]'', ''[EOS]'', ''[MASK]''] @ ''[UNK]'' # ([''[SEP]''] @ ?fam)"
    by (simp add: build_vocab_list_eq special_tokens_def)
  moreover have "''[UNK]'' \<notin> set ([''[SEP]''] @ ?fam)"
    using nf[of "''UNK]''"] by simp
  ultimately show "map_of (token_to_id (build_vocabulary cfg)) ''[UNK]'' = Some 4"
    unfolding t2i
    using map_of_build_last[of "''[UNK]''" _ "[''[PAD]'', ''[BOS]'', ''[EOS]'', ''[MASK]'']"]
    by simp
qed

text \<open>
  Claim C8. For a tokenizer built from any vocabulary and MIDI configuration,
  \<open>encode_notes\<close> of the empty note list returns exactly the tokens \<^verbatim>\<open>[BOS]\<close>, \<^verbatim>\<open>[EOS]\<close>,
  their ids (1 and 2), the metadata \<open>num_notes = 0\<close>, \<open>duration = 0\<close> and no notes. It does
  so without quantizing: the result is the same for a quantization grid of 0, for which
  \<open>quantize_notes\<close> raises even on the empty list.
\<close>

theorem encode_notes_empty:
  "encode_notes (new_tokenizer vocab_cfg midi_arg) [] source_info
     = Some (Inr \<lparr>tokens = [''[BOS]'', ''[EOS]''],
                  token_ids = [1, 2],
                  metadata = \<lparr>num_notes = 0, duration = 0, details = None\<rparr>,
                  result_notes = []\<rparr>)
   \<and> encode_token (vocabulary (new_tokenizer vocab_cfg midi_arg)) ''[BOS]'' = Inr 1
   \<and> encode_token (vocabulary (new_tokenizer vocab_cfg midi_arg)) ''[EOS]'' = Inr 2
   \<and> quantize_notes [] (Some 0) = Inl ZeroDivisionError"
  by (simp add: encode_notes_def new_tokenizer_def new_vocabulary_def encode_token_def
      special_token_ids quantize_notes_def)

text \<open>The token \<^verbatim>\<open>[BOS]\<close> has id 1, and id 1 decodes to it.\<close>

theorem default_vocabulary_bijection_witness:
  "''[BOS]'' \<in> set (vocab (new_vocabulary None))
   \<and> encode_token (new_vocabulary None) ''[BOS]'' = Inr 1
   \<and> decode_token (new_vocabulary None) 1 = ''[BOS]''"
proof -
  have m: "''[BOS]'' \<in> set (vocab (new_vocabulary None))"
    unfolding vocab_new_vocabulary by (simp add: special_in_vocab special_tokens_def)
  have e: "encode_token (new_vocabulary None) ''[BOS]'' = Inr 1"
    by (simp add: new_vocabulary_def encode_token_def special_token_ids)
  obtain i where "encode_token (new_vocabulary None) ''[BOS]'' = Inr i"
    and "decode_token (new_vocabulary None) i = ''[BOS]''"
    using default_vocabulary_bijection m by blast
  then have "decode_token (new_vocabulary None) 1 = ''[BOS]''"
    using e by simp
  then show ?thesis using m e by simp
qed

text \<open>The default tokenizer on the empty list, with a source name.\<close>

theorem encode_notes_empty_witness:
  "encode_notes (new_tokenizer None None) [] ''melody.mid''
     = Some (Inr \<lparr>tokens = [''[BOS]'', ''[EOS]''],
                  token_ids = [1, 2],
                  metadata = \<lparr>num_notes = 0, duration = 0, details = None\<rparr>,
                  result_notes = []\<rparr>)"
  using encode_notes_empty [of None None "''melody.mid''"] by simp

lemma control_tokens_disjoint:
  "set (special_tokens @ structural_tokens @ note_token_list cfg @ rest_token_list cfg
        @ pattern_token_list cfg) \<inter> set control_tokens = {}"
proof -
  have c: "t \<in> set control_tokens \<Longrightarrow> hd t \<in> {CHR ''T'', CHR ''K'', CHR ''S'', CHR ''A''}" for t
    by (auto simp: control_tokens_def)
  have n: "hd t = CHR ''N''" if "t \<in> set (note_token_list cfg)" for t
    using note_token_list_prefix[OF that]
    by (cases t) (auto simp: startswith_def)
  have r: "hd t = CHR ''R''" if "t \<in> set (rest_token_list cfg)" for t
    using that by (auto simp: rest_token_list_def)
  have p: "hd t = CHR ''P''" if "t \<in> set (pattern_token_list cfg)" for t
    using that by (auto simp: pattern_token_list_def)
  have s: "set (special_tokens @ structural_tokens) \<inter> set control_tokens = {}"
    by (simp add: special_tokens_def structural_tokens_def control_tokens_def)
  have "t \<notin> set control_tokens"
    if "t \<in> set (note_token_list cfg @ rest_token_list cfg @ pattern_token_list cfg)" for t
    using that n[of t] r[of t] p[of t] c[of t] by auto
  then show ?thesis using s by auto
qed

text \<open>
  Claim C9, as amended. The control-token family added at vocabulary construction
  contains exactly 23 tokens, all different: they are the last 23 tokens of every
  vocabulary, and none of them occurs before.
\<close>

theorem control_tokens_count:
  "length control_tokens = 23
   \<and> distinct control_tokens
   \<and> (\<exists>pre. vocab (new_vocabulary cfg) = pre @ control_tokens
            \<and> set pre \<inter> set control_tokens = {})"
proof (intro conjI)
  show "length control_tokens = 23" by (simp add: control_tokens_def)
  show "distinct control_tokens" by (simp add: control_tokens_def)
  let ?c = "case cfg of None \<Rightarrow> default_config | Some c \<Rightarrow> c"
  have "vocab (new_vocabulary cfg)
      = (special_tokens @ structural_tokens @ note_token_list ?c @ rest_token_list ?c
        @ pattern_token_list ?c) @ control_tokens"
    by (simp add: vocab_new_vocabulary build_vocab_list_eq)
  then show "\<exists>pre. vocab (new_vocabulary cfg) = pre @ control_tokens
            \<and> set pre \<inter> set control_tokens = {}"
    using control_tokens_disjoint[of ?c] by blast
qed

text \<open>The claim as first stated fails: the catalog does not hold 24 tokens.\<close>

theorem control_tokens_count_counterexample: "length control_tokens \<noteq> 24"
  by (simp add: control_tokens_def)

subsection \<open>Round trip of a dotted note\<close>

lemma beats_to_duration_name_3_2: "beats_to_duration_name (3 / 2) = ''dotted_quarter''"
  by (simp add: beats_to_duration_name_def beats_duration_map_def fl_simps fl_tenth)

lemma midi_to_pitch_name_60: "midi_to_pitch_name 60 = ''C4''"
  by (simp add: midi_to_pitch_name_def note_names_def str_int_def)

text \<open>
  Claim C1 does not hold of the code. A single dotted quarter note C4 at time 0, its
  three names consistent with its numeric fields and its duration name one of the
  configured durations, is encoded to \<^verbatim>\<open>NOTE_C4_dotted_quarter_mf\<close>; decoding splits the
  token at every underscore into five fields and skips it, so no note comes back.
\<close>

theorem dotted_note_roundtrip_fails:
  "pitch_name \<lparr>pitch = 60, start_time = 0, end_time = 3 / 2, velocity = 65,
         pitch_name = ''C4'', duration_name = ''dotted_quarter'', dynamic_name = ''mf''\<rparr>
     = midi_to_pitch_name 60
   \<and> ''dotted_quarter'' = beats_to_duration_name (3 / 2 - 0)
   \<and> ''mf'' = velocity_to_dynamic 65
   \<and> ''dotted_quarter'' \<in> set (durations default_config)
   \<and> (\<exists>r. encode_notes (new_tokenizer None None)
          [\<lparr>pitch = 60, start_time = 0, end_time = 3 / 2, velocity = 65,
            pitch_name = ''C4'', duration_name = ''dotted_quarter'', dynamic_name = ''mf''\<rparr>] ''''
          = Some (Inr r)
        \<and> tokens r = [''[BOS]'', ''NOTE_C4_dotted_quarter_mf'', ''[EOS]'']
        \<and> decode_tokens (new_tokenizer None None) (Inl (tokens r)) = [])"
proof -
  let ?n = "\<lparr>pitch = 60, start_time = 0, end_time = 3 / 2, velocity = 65,
         pitch_name = ''C4'', duration_name = ''dotted_quarter'', dynamic_name = ''mf''\<rparr>"
  let ?toks = "[''[BOS]'', ''NOTE_C4_dotted_quarter_mf'', ''[EOS]'']"
  have q: "quantize_notes [?n] (Some 16) = Inr [?n]"
    by (simp add: quantize_notes_def grid_unit_def quantize_note_def py_round_def Let_def
        beats_to_duration_name_3_2 fl_simps)
  have t: "notes_to_tokens (new_tokenizer None None) [?n] = Some ?toks"
    by (simp add: notes_to_tokens_def new_tokenizer_def default_midi_config_def
        bar_loop.simps create_note_token_def fl_simps fl_tenth fl_tenth_fl)
  obtain ids where ids: "encode_tokens (build_vocabulary default_config) ?toks = Inr ids"
    using encode_tokens_total by blast
  have g: "quantization_grid (midi_cfg (new_tokenizer None None)) = 16"
    by (simp add: new_tokenizer_def default_midi_config_def)
  have v: "vocabulary (new_tokenizer None None) = build_vocabulary default_config"
    by (simp add: new_tokenizer_def new_vocabulary_def)
  have e: "encode_notes (new_tokenizer None None) [?n] ''''
      = Some (Inr \<lparr>tokens = ?toks, token_ids = ids,
           metadata = \<lparr>num_notes = 1, duration = 3 / 2,
              details = Some \<lparr>num_tokens = 3, compression_ratio = fl (1 / 3), source = '''',
                 pitch_min_max = Some (60, 60)\<rparr>\<rparr>,
           result_notes = [?n]\<rparr>)"
    by (simp add: encode_notes_def g q t v ids del: encode_tokens.simps)
  have d: "decode_tokens (new_tokenizer None None) (Inl ?toks) = []"
    by (simp add: decode_tokens_def tokens_to_notes_def startswith_def parse_note_token_def)
  show ?thesis
    unfolding e using d
    by (simp add: midi_to_pitch_name_60 beats_to_duration_name_3_2 velocity_to_dynamic_def
        default_config_def)
qed

subsection \<open>Sequence detection\<close>

text \<open>
  Claim C5 does not hold of the code. For four notes whose two blocks of two have the
  same interval profile, \<open>find_sequence_pattern\<close> at start 0 finds the sequence spanning
  indices 0 to 3 with confidence 0.5, but \<open>detect_sequences\<close> scans
  \<^verbatim>\<open>range(len(notes) - pattern_size * 2)\<close>, which is empty, and emits nothing.
\<close>

theorem exact_double_block_not_detected:
  "detect_sequences default_detector_config
     (map (\<lambda>p. \<lparr>pitch = p, start_time = 0, end_time = 1, velocity = 65,
                 pitch_name = midi_to_pitch_name p, duration_name = ''quarter'',
                 dynamic_name = ''mf''\<rparr>) [60, 62, 64, 66])
     = Some []
   \<and> (\<exists>p. find_sequence_pattern default_detector_config
          (map (\<lambda>p. \<lparr>pitch = p, start_time = 0, end_time = 1, velocity = 65,
                 pitch_name = midi_to_pitch_name p, duration_name = ''quarter'',
                 dynamic_name = ''mf''\<rparr>) [60, 62, 64, 66]) 0 2
          = Some (Some p)
        \<and> pattern_type p = ''sequence'' \<and> start_index p = 0 \<and> end_index p = 3
        \<and> confidence p = 1 / 2)"
  by (simp add: detect_sequences_def range1_def range2_def find_sequence_pattern_def
      py_slice_def py_slice_index_def sequence_loop.simps default_detector_config_def
      get_or_def upto_rec1)

subsection \<open>Overlap resolution\<close>

lemma set_range2: "set (range2 a (b + 1)) = {a..b}"
  by (simp add: range2_def)

text \<open>
  The invariant of the greedy loop: \<open>used_indices\<close> is the union of the ranges accepted so
  far, and the accepted ranges are pairwise disjoint.
\<close>

lemma disjoint_snoc:
  assumes pd: "\<forall>i j. i < j \<and> j < length xs \<longrightarrow>
                 {start_index (xs ! i)..end_index (xs ! i)}
                 \<inter> {start_index (xs ! j)..end_index (xs ! j)} = {}"
    and new: "\<forall>q \<in> set xs. {start_index q..end_index q} \<inter> {start_index p..end_index p} = {}"
  shows "\<forall>i j. i < j \<and> j < length (xs @ [p]) \<longrightarrow>
                 {start_index ((xs @ [p]) ! i)..end_index ((xs @ [p]) ! i)}
                 \<inter> {start_index ((xs @ [p]) ! j)..end_index ((xs @ [p]) ! j)} = {}"
proof (intro allI impI)
  fix i j assume ij: "i < j \<and> j < length (xs @ [p])"
  show "{start_index ((xs @ [p]) ! i)..end_index ((xs @ [p]) ! i)}
                 \<inter> {start_index ((xs @ [p]) ! j)..end_index ((xs @ [p]) ! j)} = {}"
  proof (cases "j < length xs")
    case True
    then show ?thesis using pd ij by (simp add: nth_append)
  next
    case False
    then have j: "j = length xs" using ij by simp
    then have i: "i < length xs" using ij by simp
    have m: "xs ! i \<in> set xs" using i by simp
    have e: "(xs @ [p]) ! i = xs ! i" "(xs @ [p]) ! j = p"
      using i j by (simp_all add: nth_append)
    show ?thesis unfolding e using new m by blast
  qed
qed

lemma resolve_loop_disjoint:
  assumes "used = (\<Union>q \<in> set resolved. {start_index q..end_index q})"
    and "\<forall>i j. i < j \<and> j < length resolved \<longrightarrow>
                 {start_index (resolved ! i)..end_index (resolved ! i)}
                 \<inter> {start_index (resolved ! j)..end_index (resolved ! j)} = {}"
  shows "\<forall>i j. i < j \<and> j < length (resolve_loop ps resolved used) \<longrightarrow>
           {start_index (resolve_loop ps resolved used ! i)
              ..end_index (resolve_loop ps resolved used ! i)}
           \<inter> {start_index (resolve_loop ps resolved used ! j)
              ..end_index (resolve_loop ps resolved used ! j)} = {}"
  using assms
proof (induction ps arbitrary: resolved used)
  case Nil
  then show ?case by simp
next
  case (Cons p ps)
  show ?case
  proof (cases "{start_index p..end_index p} \<inter> used = {}")
    case False
    then have "resolve_loop (p # ps) resolved used = resolve_loop ps resolved used"
      by (simp add: set_range2 Let_def)
    then show ?thesis using Cons.IH[OF Cons.prems] by simp
  next
    case True
    then have step: "resolve_loop (p # ps) resolved used
        = resolve_loop ps (resolved @ [p]) (used \<union> {start_index p..end_index p})"
      by (simp add: set_range2 Let_def)
    have u: "used \<union> {start_index p..end_index p}
        = (\<Union>q \<in> set (resolved @ [p]). {start_index q..end_index q})"
      using Cons.prems(1) by auto
    have "\<forall>q \<in> set resolved. {start_index q..end_index q} \<inter> {start_index p..end_index p} = {}"
      using True Cons.prems(1) by blast
    then have d: "\<forall>i j. i < j \<and> j < length (resolved @ [p]) \<longrightarrow>
                 {start_index ((resolved @ [p]) ! i)..end_index ((resolved @ [p]) ! i)}
                 \<inter> {start_index ((resolved @ [p]) ! j)..end_index ((resolved @ [p]) ! j)} = {}"
      using disjoint_snoc[OF Cons.prems(2)] by blast
    show ?thesis unfolding step by (rule Cons.IH[OF u d])
  qed
qed

lemma resolve_overlaps_disjoint:
  "\<forall>i j. i < j \<and> j < length (resolve_overlaps ps) \<longrightarrow>
           {start_index (resolve_overlaps ps ! i)..end_index (resolve_overlaps ps ! i)}
           \<inter> {start_index (resolve_overlaps ps ! j)..end_index (resolve_overlaps ps ! j)} = {}"
proof (cases "ps = []")
  case True
  then show ?thesis by (simp add: resolve_overlaps_def)
next
  case False
  then have "resolve_overlaps ps = resolve_loop (sort_key (\<lambda>p. - confidence p) ps) [] {}"
    by (simp add: resolve_overlaps_def)
  then show ?thesis
    using resolve_loop_disjoint[of "{}" "[]" "sort_key (\<lambda>p. - confidence p) ps"] by simp
qed

text \<open>
  The sequence loop ends for a positive pattern size, so the detector always returns.
\<close>

lemma sequence_loop_terminates:
  assumes "0 < pattern_size"
  shows "\<exists>r. sequence_loop ns pattern_size iv reps pos = Some r"
proof (induction "nat (int (length ns) - pos)" arbitrary: reps pos rule: less_induct)
  case less
  show ?case
  proof (cases "pos + pattern_size \<le> int (length ns)
      \<and> iv = intervals_of (map pitch (py_slice ns pos (pos + pattern_size)))")
    case False
    then have "sequence_loop ns pattern_size iv reps pos = Some reps"
      by (subst sequence_loop.simps) auto
    then show ?thesis by blast
  next
    case True
    then have "nat (int (length ns) - (pos + pattern_size)) < nat (int (length ns) - pos)"
      using assms by linarith
    from less[OF this, of "reps + 1"]
    obtain r where "sequence_loop ns pattern_size iv (reps + 1) (pos + pattern_size) = Some r"
      by blast
    then have "sequence_loop ns pattern_size iv reps pos = Some r"
      using True by (subst sequence_loop.simps) simp
    then show ?thesis by blast
  qed
qed

lemma find_sequence_pattern_terminates:
  "0 < pattern_size \<Longrightarrow> \<exists>r. find_sequence_pattern cfg ns start pattern_size = Some r"
  using sequence_loop_terminates[of pattern_size ns
      "intervals_of (map pitch (py_slice ns start (start + pattern_size)))" 1
      "start + pattern_size"]
  by (auto simp: find_sequence_pattern_def Let_def)

lemma collect_patterns_total:
  "(\<And>x. x \<in> set xs \<Longrightarrow> \<exists>r. f x = Some r) \<Longrightarrow> \<exists>ps. collect_patterns f xs = Some ps"
proof (induction xs)
  case Nil
  show ?case by simp
next
  case (Cons x xs)
  obtain r where "f x = Some r" using Cons.prems by auto
  moreover obtain ps where "collect_patterns f xs = Some ps" using Cons by auto
  ultimately show ?case by simp
qed

lemma detect_sequences_total: "\<exists>ps. detect_sequences cfg ns = Some ps"
  unfolding detect_sequences_def
proof (rule collect_patterns_total)
  fix x
  assume "x \<in> set (concat (map (\<lambda>pattern_size.
      map (Pair pattern_size) (range1 (int (length ns) - pattern_size * 2))) (range2 2 (4 + 1))))"
  then have "0 < fst x" by (auto simp: range2_def)
  then show "\<exists>r. (case x of (pattern_size, start) \<Rightarrow>
      find_sequence_pattern cfg ns start pattern_size) = Some r"
    using find_sequence_pattern_terminates by (cases x) auto
qed

text \<open>
  Claim C3. In every list returned by overlap resolution, the inclusive index ranges
  \<open>[start_index, end_index]\<close> of any two patterns at different positions are disjoint; and
  \<open>detect_patterns\<close> always returns a list, which has the same property.
\<close>

theorem resolved_patterns_disjoint:
  "(\<forall>i j. i < j \<and> j < length (resolve_overlaps ps) \<longrightarrow>
           {start_index (resolve_overlaps ps ! i)..end_index (resolve_overlaps ps ! i)}
           \<inter> {start_index (resolve_overlaps ps ! j)..end_index (resolve_overlaps ps ! j)} = {})
   \<and> (\<exists>out. detect_patterns cfg ns = Some out
        \<and> (\<forall>i j. i < j \<and> j < length out \<longrightarrow>
              {start_index (out ! i)..end_index (out ! i)}
              \<inter> {start_index (out ! j)..end_index (out ! j)} = {}))"
proof
  show "\<forall>i j. i < j \<and> j < length (resolve_overlaps ps) \<longrightarrow>
           {start_index (resolve_overlaps ps ! i)..end_index (resolve_overlaps ps ! i)}
           \<inter> {start_index (resolve_overlaps ps ! j)..end_index (resolve_overlaps ps ! j)} = {}"
    by (rule resolve_overlaps_disjoint)
  obtain sequences where s: "detect_sequences cfg ns = Some sequences"
    using detect_sequences_total by blast
  show "\<exists>out. detect_patterns cfg ns = Some out
        \<and> (\<forall>i j. i < j \<and> j < length out \<longrightarrow>
              {start_index (out ! i)..end_index (out ! i)}
              \<inter> {start_index (out ! j)..end_index (out ! j)} = {})"
  proof (cases "int (length ns) < get_or (min_pattern_length cfg) 3")
    case True
    then show ?thesis by (simp add: detect_patterns_def)
  next
    case False
    then show ?thesis
      using resolve_overlaps_disjoint by (simp add: detect_patterns_def s)
  qed
qed

text \<open>
  The overlapping patterns of the repository's test, with a third one after them: the
  pattern of confidence 0.7 overlaps the one of confidence 0.8 and is dropped. And a
  scale followed by an arpeggio, detected as two patterns on disjoint ranges.
\<close>

lemma resolve_example:
  "resolve_overlaps
     [\<lparr>pattern_type = ''scale_up'', start_index = 0, end_index = 2, confidence = 8 / 10,
       description = ''Pattern 1'', pattern_notes = []\<rparr>,
      \<lparr>pattern_type = ''sequence'', start_index = 1, end_index = 3, confidence = 7 / 10,
       description = ''Pattern 2'', pattern_notes = []\<rparr>,
      \<lparr>pattern_type = ''leap_up'', start_index = 3, end_index = 5, confidence = 3 / 4,
       description = ''Pattern 3'', pattern_notes = []\<rparr>]
   = [\<lparr>pattern_type = ''scale_up'', start_index = 0, end_index = 2, confidence = 8 / 10,
       description = ''Pattern 1'', pattern_notes = []\<rparr>,
      \<lparr>pattern_type = ''leap_up'', start_index = 3, end_index = 5, confidence = 3 / 4,
       description = ''Pattern 3'', pattern_notes = []\<rparr>]"
  by (simp add: resolve_overlaps_def range2_def Let_def Int_Un_distrib)

lemma detect_example:
  "map_option (map (\<lambda>p. (pattern_type p, start_index p, end_index p, confidence p)))
     (detect_patterns default_detector_config
       (map (\<lambda>p. \<lparr>pitch = p, start_time = 0, end_time = 1, velocity = 65,
                   pitch_name = '''', duration_name = ''quarter'',
                   dynamic_name = ''mf''\<rparr>) [60, 62, 64, 65, 67, 60, 64, 67, 72]))
   = Some [(''scale_up'', 0, 4, 1), (''arpeggio_major'', 5, 8, 1)]"
  by code_simp

theorem resolved_patterns_disjoint_witness:
  "resolve_overlaps
     [\<lparr>pattern_type = ''scale_up'', start_index = 0, end_index = 2, confidence = 8 / 10,
       description = ''Pattern 1'', pattern_notes = []\<rparr>,
      \<lparr>pattern_type = ''sequence'', start_index = 1, end_index = 3, confidence = 7 / 10,
       description = ''Pattern 2'', pattern_notes = []\<rparr>,
      \<lparr>pattern_type = ''leap_up'', start_index = 3, end_index = 5, confidence = 3 / 4,
       description = ''Pattern 3'', pattern_notes = []\<rparr>]
   = [\<lparr>pattern_type = ''scale_up'', start_index = 0, end_index = 2, confidence = 8 / 10,
       description = ''Pattern 1'', pattern_notes = []\<rparr>,
      \<lparr>pattern_type = ''leap_up'', start_index = 3, end_index = 5, confidence = 3 / 4,
       description = ''Pattern 3'', pattern_notes = []\<rparr>]
   \<and> {0..2} \<inter> {3..5::int} = {}
   \<and> map_option (map (\<lambda>p. (pattern_type p, start_index p, end_index p, confidence p)))
       (detect_patterns default_detector_config
         (map (\<lambda>p. \<lparr>pitch = p, start_time = 0, end_time = 1, velocity = 65,
                     pitch_name = '''', duration_name = ''quarter'',
                     dynamic_name = ''mf''\<rparr>) [60, 62, 64, 65, 67, 60, 64, 67, 72]))
     = Some [(''scale_up'', 0, 4, 1), (''arpeggio_major'', 5, 8, 1)]"
proof -
  let ?ps = "[\<lparr>pattern_type = ''scale_up'', start_index = 0, end_index = 2, confidence = 8 / 10,
       description = ''Pattern 1'', pattern_notes = []\<rparr>,
      \<lparr>pattern_type = ''sequence'', start_index = 1, end_index = 3, confidence = 7 / 10,
       description = ''Pattern 2'', pattern_notes = []\<rparr>,
      \<lparr>pattern_type = ''leap_up'', start_index = 3, end_index = 5, confidence = 3 / 4,
       description = ''Pattern 3'', pattern_notes = []\<rparr>]"
  have "(0::nat) < 1 \<and> 1 < length (resolve_overlaps ?ps) \<longrightarrow>
     {start_index (resolve_overlaps ?ps ! 0)..end_index (resolve_overlaps ?ps ! 0)}
       \<inter> {start_index (resolve_overlaps ?ps ! 1)..end_index (resolve_overlaps ?ps ! 1)} = {}"
    using resolved_patterns_disjoint[of ?ps] by blast
  then have "{0..2} \<inter> {3..5::int} = {}"
    unfolding resolve_example by simp
  then show ?thesis
    using resolve_example detect_example by simp
qed

subsection \<open>Round trip of notes without dotted durations\<close>

lemma parse_note_token_fields:
  "map_option note_fields (parse_note_token t ct) = map_option note_fields (parse_note_token t 0)"
  by (simp add: parse_note_token_def Let_def note_fields_def split: sum.splits)

lemma tokens_loop_fields:
  "map note_fields (tokens_loop bpb toks acc ct cb) = map note_fields acc @ decoded_fields toks"
proof (induction toks arbitrary: acc ct cb)
  case Nil
  show ?case by (simp add: decoded_fields_def)
next
  case (Cons t ts)
  have d: "decoded_fields (t # ts) = decoded_fields [t] @ decoded_fields ts"
    by (simp add: decoded_fields_def)
  show ?case
  proof (cases "parse_note_token t ct")
    case None
    then have "parse_note_token t 0 = None"
      using parse_note_token_fields[of t ct] by simp
    then show ?thesis
      using None by (simp add: Cons.IH d) (simp add: decoded_fields_def)
  next
    case (Some n)
    then obtain m where m: "parse_note_token t 0 = Some m" and "note_fields m = note_fields n"
      using parse_note_token_fields[of t ct] by (cases "parse_note_token t 0") auto
    then show ?thesis
      using Some by (simp add: Cons.IH d) (simp add: decoded_fields_def)
  qed
qed

lemma split_no_separator: "c \<notin> set s \<Longrightarrow> split c s = [s]"
  by (induction s) auto

lemma split_at_separator: "c \<notin> set a \<Longrightarrow> split c (a @ c # r) = a # split c r"
  by (induction a) auto

lemma split_created_token:
  assumes "CHR ''_'' \<notin> set (pitch_name n)" "CHR ''_'' \<notin> set (duration_name n)"
    "CHR ''_'' \<notin> set (dynamic_name n)"
  shows "split CHR ''_'' (create_note_token n)
     = [''NOTE'', pitch_name n, duration_name n, dynamic_name n]"
proof -
  have s3: "split CHR ''_'' (dynamic_name n) = [dynamic_name n]"
    using assms(3) by (rule split_no_separator)
  have s2: "split CHR ''_'' (duration_name n @ CHR ''_'' # dynamic_name n)
      = [duration_name n, dynamic_name n]"
    using split_at_separator[OF assms(2)] s3 by simp
  have s1: "split CHR ''_'' (pitch_name n @ CHR ''_'' # (duration_name n @ CHR ''_'' # dynamic_name n))
      = [pitch_name n, duration_name n, dynamic_name n]"
    using split_at_separator[OF assms(1)] s2 by simp
  have "CHR ''_'' \<notin> set ''NOTE''" by simp
  then have "split CHR ''_'' (''NOTE'' @ CHR ''_'' # (pitch_name n @ CHR ''_'' # (duration_name n
          @ CHR ''_'' # dynamic_name n)))
      = ''NOTE'' # split CHR ''_'' (pitch_name n @ CHR ''_'' # (duration_name n
          @ CHR ''_'' # dynamic_name n))"
    by (rule split_at_separator)
  then show ?thesis
    unfolding s1 by (simp add: create_note_token_def)
qed

lemma parse_created_token:
  assumes "CHR ''_'' \<notin> set (pitch_name n)" "CHR ''_'' \<notin> set (duration_name n)"
    "CHR ''_'' \<notin> set (dynamic_name n)"
    and "pitch_name_to_midi (pitch_name n) = Inr (pitch n)"
  shows "map_option note_fields (parse_note_token (create_note_token n) ct) = Some (note_fields n)"
  using assms(4)
  by (simp add: parse_note_token_def Let_def split_created_token[OF assms(1,2,3)] note_fields_def)

lemma pitch_names_12_127:
  "list_all (\<lambda>p. pitch_name_to_midi (midi_to_pitch_name p) = Inr p
                  \<and> CHR ''_'' \<notin> set (midi_to_pitch_name p)) [12..127]"
  by code_simp

lemma pitch_name_roundtrip:
  assumes "12 \<le> p" "p \<le> 127"
  shows "pitch_name_to_midi (midi_to_pitch_name p) = Inr p"
    and "CHR ''_'' \<notin> set (midi_to_pitch_name p)"
proof -
  have "p \<in> set [12..127]" using assms by (simp only: set_upto atLeastAtMost_iff)
  then have "pitch_name_to_midi (midi_to_pitch_name p) = Inr p
                  \<and> CHR ''_'' \<notin> set (midi_to_pitch_name p)"
    using pitch_names_12_127 unfolding list_all_iff by blast
  then show "pitch_name_to_midi (midi_to_pitch_name p) = Inr p"
    and "CHR ''_'' \<notin> set (midi_to_pitch_name p)" by blast+
qed

lemma decoded_fields_append: "decoded_fields (xs @ ys) = decoded_fields xs @ decoded_fields ys"
  by (simp add: decoded_fields_def)

lemma decoded_fields_bars: "decoded_fields (replicate k ''BAR'') = []"
  by (induction k) (simp_all add: decoded_fields_def)

lemma decoded_fields_rest: "decoded_fields [create_rest_token d] = []"
  by (simp add: decoded_fields_def create_rest_token_def startswith_def)

lemma decoded_fields_note:
  assumes "CHR ''_'' \<notin> set (pitch_name n)" "CHR ''_'' \<notin> set (duration_name n)"
    "CHR ''_'' \<notin> set (dynamic_name n)"
    and "pitch_name_to_midi (pitch_name n) = Inr (pitch n)"
  shows "decoded_fields [create_note_token n] = [note_fields n]"
proof -
  have s: "startswith (create_note_token n) ''NOTE_''"
    by (simp add: create_note_token_def startswith_def)
  obtain m where "parse_note_token (create_note_token n) 0 = Some m"
    and "note_fields m = note_fields n"
    using parse_created_token[OF assms, of 0] by auto
  then show ?thesis
    using s startswith_NOTE_dispatch[OF s] by (simp add: decoded_fields_def)
qed

lemma notes_loop_fields:
  assumes bpb: "1 / 2 ^ 52 \<le> bpb"
    and good: "\<forall>n \<in> set ns. \<bar>start_time n\<bar> \<le> 2 ^ 51 * bpb
                 \<and> 12 \<le> pitch n \<and> pitch n \<le> 127
                 \<and> pitch_name n = midi_to_pitch_name (pitch n)
                 \<and> CHR ''_'' \<notin> set (duration_name n) \<and> CHR ''_'' \<notin> set (dynamic_name n)"
    and cbs: "\<bar>cbs\<bar> \<le> 2 ^ 51 * bpb"
  shows "\<exists>S. notes_loop bpb ns toks ct cbs = Some (toks @ S)
            \<and> decoded_fields S = map note_fields ns"
  using good cbs
proof (induction ns arbitrary: toks ct cbs)
  case Nil
  show ?case by (simp add: decoded_fields_def)
next
  case (Cons n ns)
  have sn: "\<bar>start_time n\<bar> \<le> 2 ^ 51 * bpb" using Cons.prems(1) by simp
  obtain k cbs' where k: "bar_loop bpb (start_time n) toks cbs
      = Some (toks @ replicate k ''BAR'', cbs')" and cbs': "\<bar>cbs'\<bar> \<le> 2 ^ 51 * bpb"
    using bar_loop_terminates [OF bpb sn Cons.prems(2)] by blast
  define R where "R = (if fl (ct + fl (1 / 10)) < start_time n
      then [create_rest_token (fl (start_time n - ct))] else [])"
  have R: "decoded_fields R = []"
    by (simp add: R_def decoded_fields_rest) (simp add: decoded_fields_def)
  have gn: "12 \<le> pitch n" "pitch n \<le> 127" "pitch_name n = midi_to_pitch_name (pitch n)"
    "CHR ''_'' \<notin> set (duration_name n)" "CHR ''_'' \<notin> set (dynamic_name n)"
    using Cons.prems(1) by simp_all
  have pn: "CHR ''_'' \<notin> set (pitch_name n)" "pitch_name_to_midi (pitch_name n) = Inr (pitch n)"
    using pitch_name_roundtrip[OF gn(1,2)] gn(3) by simp_all
  have N: "decoded_fields [create_note_token n] = [note_fields n]"
    using pn(1) gn(4,5) pn(2) by (rule decoded_fields_note)
  have "\<forall>m \<in> set ns. \<bar>start_time m\<bar> \<le> 2 ^ 51 * bpb
                 \<and> 12 \<le> pitch m \<and> pitch m \<le> 127
                 \<and> pitch_name m = midi_to_pitch_name (pitch m)
                 \<and> CHR ''_'' \<notin> set (duration_name m) \<and> CHR ''_'' \<notin> set (dynamic_name m)"
    using Cons.prems(1) by simp
  from Cons.IH [OF this cbs', of "toks @ replicate k ''BAR'' @ R @ [create_note_token n]"
      "end_time n"]
  obtain S where S: "notes_loop bpb ns (toks @ replicate k ''BAR'' @ R @ [create_note_token n])
        (end_time n) cbs'
      = Some ((toks @ replicate k ''BAR'' @ R @ [create_note_token n]) @ S)"
    and dS: "decoded_fields S = map note_fields ns"
    by blast
  have step: "notes_loop bpb (n # ns) toks ct cbs
      = notes_loop bpb ns (toks @ replicate k ''BAR'' @ R @ [create_note_token n])
          (end_time n) cbs'"
    by (cases "fl (ct + fl (1 / 10)) < start_time n") (simp_all add: k R_def)
  have "notes_loop bpb (n # ns) toks ct cbs
      = Some (toks @ (replicate k ''BAR'' @ R @ [create_note_token n] @ S))"
    unfolding step S by simp
  moreover have "decoded_fields (replicate k ''BAR'' @ R @ [create_note_token n] @ S)
      = decoded_fields (replicate k ''BAR'') @ decoded_fields R
        @ decoded_fields [create_note_token n] @ decoded_fields S"
    by (simp add: decoded_fields_def)
  then have "decoded_fields (replicate k ''BAR'' @ R @ [create_note_token n] @ S)
      = map note_fields (n # ns)"
    unfolding decoded_fields_bars R N dS by simp
  ultimately show ?case by blast
qed

text \<open>
  Round trip where it holds. With a bar length of at least \<open>2 ^ - 52\<close> beats, for notes
  that start within \<open>2 ^ 51\<close> bars of time 0, of pitch 12 to 127, whose pitch name is the
  one \<open>midi_to_pitch_name\<close> gives and whose duration and dynamic names contain no
  underscore, the encoder returns, and decoding its tokens gives a note list of the same
  length with the same pitches, pitch names, duration names and dynamic names.
\<close>

theorem undotted_notes_roundtrip:
  assumes "1 / 2 ^ 52 \<le> beats_per_bar (midi_cfg T)"
    and "\<forall>n \<in> set ns. \<bar>start_time n\<bar> \<le> 2 ^ 51 * beats_per_bar (midi_cfg T)
                 \<and> 12 \<le> pitch n \<and> pitch n \<le> 127
                 \<and> pitch_name n = midi_to_pitch_name (pitch n)
                 \<and> CHR ''_'' \<notin> set (duration_name n) \<and> CHR ''_'' \<notin> set (dynamic_name n)"
  shows "\<exists>toks. notes_to_tokens T ns = Some toks
           \<and> length (decode_tokens T (Inl toks)) = length ns
           \<and> map pitch (decode_tokens T (Inl toks)) = map pitch ns
           \<and> map pitch_name (decode_tokens T (Inl toks)) = map pitch_name ns
           \<and> map duration_name (decode_tokens T (Inl toks)) = map duration_name ns
           \<and> map dynamic_name (decode_tokens T (Inl toks)) = map dynamic_name ns"
proof -
  obtain S where S: "notes_loop (beats_per_bar (midi_cfg T)) ns [''[BOS]''] 0 0
      = Some ([''[BOS]''] @ S)"
    and dS: "decoded_fields S = map note_fields ns"
  proof -
    have "0 \<le> beats_per_bar (midi_cfg T)"
      using assms(1) by (smt (verit) divide_nonneg_nonneg zero_le_numeral zero_le_power)
    hence "\<bar>0::real\<bar> \<le> 2 ^ 51 * beats_per_bar (midi_cfg T)" by simp
    from notes_loop_fields [OF assms this, of "[''[BOS]'']" 0] that show ?thesis by auto
  qed
  let ?toks = "[''[BOS]''] @ S @ [''[EOS]'']"
  have t: "notes_to_tokens T ns = Some ?toks"
    by (simp add: notes_to_tokens_def S)
  have "map note_fields (decode_tokens T (Inl ?toks)) = decoded_fields ?toks"
    unfolding decode_tokens_def tokens_to_notes_def
    by (simp del: tokens_loop.simps add: tokens_loop_fields)
  also have "\<dots> = decoded_fields [''[BOS]''] @ decoded_fields S @ decoded_fields [''[EOS]'']"
    by (simp add: decoded_fields_def)
  also have "\<dots> = map note_fields ns"
    unfolding dS by (simp add: decoded_fields_def)
  finally have f: "map note_fields (decode_tokens T (Inl ?toks)) = map note_fields ns" .
  have l: "length (decode_tokens T (Inl ?toks)) = length ns"
    using arg_cong[OF f, of length] by simp
  have p1: "map pitch xs = map fst (map note_fields xs)" for xs
    by (simp add: note_fields_def)
  have p2: "map pitch_name xs = map (fst \<circ> snd) (map note_fields xs)" for xs
    by (simp add: note_fields_def)
  have p3: "map duration_name xs = map (fst \<circ> snd \<circ> snd) (map note_fields xs)" for xs
    by (simp add: note_fields_def)
  have p4: "map dynamic_name xs = map (snd \<circ> snd \<circ> snd) (map note_fields xs)" for xs
    by (simp add: note_fields_def)
  show ?thesis
    using t l p1[of "decode_tokens T (Inl ?toks)"] p2[of "decode_tokens T (Inl ?toks)"]
      p3[of "decode_tokens T (Inl ?toks)"] p4[of "decode_tokens T (Inl ?toks)"]
      p1[of ns] p2[of ns] p3[of ns] p4[of ns] f
    by (intro exI[of _ ?toks]) (simp only: simp_thms)
qed

lemma fl_2_tenth: "fl (75660473739824333 / 36028797018963968) = 4728779608739021 / 2251799813685248"
  by (subst fl_eval [where e = 1]) (simp_all add: py_round_def)

text \<open>The three notes of the repository's round-trip test.\<close>

theorem undotted_notes_roundtrip_witness:
  "notes_to_tokens (new_tokenizer None None)
     [\<lparr>pitch = 60, start_time = 0, end_time = 1, velocity = 80,
       pitch_name = ''C4'', duration_name = ''quarter'', dynamic_name = ''mf''\<rparr>,
      \<lparr>pitch = 64, start_time = 1, end_time = 2, velocity = 75,
       pitch_name = ''E4'', duration_name = ''quarter'', dynamic_name = ''mp''\<rparr>,
      \<lparr>pitch = 67, start_time = 2, end_time = 4, velocity = 85,
       pitch_name = ''G4'', duration_name = ''half'', dynamic_name = ''f''\<rparr>]
   = Some [''[BOS]'', ''NOTE_C4_quarter_mf'', ''NOTE_E4_quarter_mp'', ''NOTE_G4_half_f'', ''[EOS]'']
   \<and> map pitch (decode_tokens (new_tokenizer None None)
        (Inl [''[BOS]'', ''NOTE_C4_quarter_mf'', ''NOTE_E4_quarter_mp'', ''NOTE_G4_half_f'',
              ''[EOS]'']))
     = [60, 64, 67]
   \<and> map pitch_name (decode_tokens (new_tokenizer None None)
        (Inl [''[BOS]'', ''NOTE_C4_quarter_mf'', ''NOTE_E4_quarter_mp'', ''NOTE_G4_half_f'',
              ''[EOS]'']))
     = [''C4'', ''E4'', ''G4'']"
proof -
  let ?ns = "[\<lparr>pitch = 60, start_time = 0, end_time = 1, velocity = 80,
       pitch_name = ''C4'', duration_name = ''quarter'', dynamic_name = ''mf''\<rparr>,
      \<lparr>pitch = 64, start_time = 1, end_time = 2, velocity = 75,
       pitch_name = ''E4'', duration_name = ''quarter'', dynamic_name = ''mp''\<rparr>,
      \<lparr>pitch = 67, start_time = 2, end_time = 4, velocity = 85,
       pitch_name = ''G4'', duration_name = ''half'', dynamic_name = ''f''\<rparr>]"
  have b: "1 / 2 ^ 52 \<le> beats_per_bar (midi_cfg (new_tokenizer None None))"
    by (simp add: new_tokenizer_def default_midi_config_def)
  have g: "\<forall>n \<in> set ?ns.
                 \<bar>start_time n\<bar> \<le> 2 ^ 51 * beats_per_bar (midi_cfg (new_tokenizer None None))
                 \<and> 12 \<le> pitch n \<and> pitch n \<le> 127
                 \<and> pitch_name n = midi_to_pitch_name (pitch n)
                 \<and> CHR ''_'' \<notin> set (duration_name n) \<and> CHR ''_'' \<notin> set (dynamic_name n)"
    by (simp add: midi_to_pitch_name_def note_names_def str_int_def new_tokenizer_def
        default_midi_config_def)
  have t: "notes_to_tokens (new_tokenizer None None) ?ns
      = Some [''[BOS]'', ''NOTE_C4_quarter_mf'', ''NOTE_E4_quarter_mp'', ''NOTE_G4_half_f'',
              ''[EOS]'']"
    by (simp add: notes_to_tokens_def new_tokenizer_def default_midi_config_def
        bar_loop.simps create_note_token_def fl_simps fl_tenth fl_tenth_fl fl_1_tenth fl_2_tenth)
  show ?thesis
    using undotted_notes_roundtrip[OF b g] unfolding t by simp
qed

subsection \<open>Sequences inside the scanned range\<close>

lemma sequence_loop_result:
  assumes "0 < pattern_size"
  shows "\<exists>r. sequence_loop ns pattern_size iv reps pos = Some r \<and> reps \<le> r
           \<and> (pos \<le> int (length ns) \<longrightarrow> pos + (r - reps) * pattern_size \<le> int (length ns))
           \<and> (pos + pattern_size \<le> int (length ns)
                \<and> iv = intervals_of (map pitch (py_slice ns pos (pos + pattern_size)))
               \<longrightarrow> reps + 1 \<le> r)"
proof (induction "nat (int (length ns) - pos)" arbitrary: reps pos rule: less_induct)
  case less
  show ?case
  proof (cases "pos + pattern_size \<le> int (length ns)
      \<and> iv = intervals_of (map pitch (py_slice ns pos (pos + pattern_size)))")
    case False
    then have "sequence_loop ns pattern_size iv reps pos = Some reps"
      by (subst sequence_loop.simps) auto
    then show ?thesis using False by auto
  next
    case True
    then have "nat (int (length ns) - (pos + pattern_size)) < nat (int (length ns) - pos)"
      using assms by linarith
    from less[OF this, of "reps + 1"]
    obtain r where r: "sequence_loop ns pattern_size iv (reps + 1) (pos + pattern_size) = Some r"
      and ge: "reps + 1 \<le> r"
      and fit: "pos + pattern_size \<le> int (length ns) \<longrightarrow>
          pos + pattern_size + (r - (reps + 1)) * pattern_size \<le> int (length ns)"
      by blast
    have "sequence_loop ns pattern_size iv reps pos = Some r"
      using True r by (subst sequence_loop.simps) simp
    moreover have "pos + (r - reps) * pattern_size \<le> int (length ns)"
      using fit True by (simp add: algebra_simps)
    ultimately show ?thesis using ge by auto
  qed
qed

lemma collect_patterns_member:
  "collect_patterns f xs = Some out \<Longrightarrow> x \<in> set xs \<Longrightarrow> f x = Some (Some p) \<Longrightarrow> p \<in> set out"
proof (induction xs arbitrary: out)
  case Nil
  then show ?case by simp
next
  case (Cons y ys)
  then show ?case
    by (auto split: option.splits)
qed

text \<open>
  Sequence detection where the scan reaches. For a pattern size from 2 to 4 and a start
  index \<open>0 \<le> start < len(notes) - 2 * pattern_size\<close> whose block is followed by a block
  with the same interval profile, and a configured minimum of at most 2 repetitions,
  \<open>detect_sequences\<close> emits a \<^verbatim>\<open>sequence\<close> pattern from \<open>start\<close> over \<open>r \<ge> 2\<close> whole blocks
  inside the list.
\<close>

theorem scanned_sequence_is_emitted:
  assumes psz: "pattern_size \<in> {2, 3, 4}"
    and start: "0 \<le> start" "start < int (length ns) - pattern_size * 2"
    and rep: "intervals_of (map pitch (py_slice ns start (start + pattern_size)))
        = intervals_of (map pitch
            (py_slice ns (start + pattern_size) (start + pattern_size + pattern_size)))"
    and minrep: "get_or (sequence_min_repetitions cfg) 2 \<le> 2"
  shows "\<exists>out p r. detect_sequences cfg ns = Some out \<and> p \<in> set out \<and> 2 \<le> r
          \<and> pattern_type p = ''sequence'' \<and> start_index p = start
          \<and> end_index p = start + r * pattern_size - 1 \<and> end_index p < int (length ns)"
proof -
  have pos: "0 < pattern_size" using psz by auto
  have fits: "start + pattern_size + pattern_size \<le> int (length ns)"
    using start by simp
  obtain r where r: "sequence_loop ns pattern_size
        (intervals_of (map pitch (py_slice ns start (start + pattern_size))))
        1 (start + pattern_size) = Some r"
    and ge: "1 + 1 \<le> r"
    and fit: "start + pattern_size + (r - 1) * pattern_size \<le> int (length ns)"
    using sequence_loop_result[OF pos, of ns
        "intervals_of (map pitch (py_slice ns start (start + pattern_size)))" 1
        "start + pattern_size"] rep fits pos
    by auto
  define p where "p = \<lparr>pattern_type = ''sequence'', start_index = start,
      end_index = start + r * pattern_size - 1,
      confidence = min (9 / 10) (1 / 2 + (of_int r - 2) * (15 / 100)),
      description = ''Melodic sequence repeated '' @ str_int r @ '' times'',
      pattern_notes = py_slice ns start (start + r * pattern_size - 1 + 1)\<rparr>"
  have f: "find_sequence_pattern cfg ns start pattern_size = Some (Some p)"
    using fits ge minrep by (simp add: find_sequence_pattern_def r Let_def p_def)
  have m: "(pattern_size, start) \<in> set (concat (map (\<lambda>pattern_size.
      map (Pair pattern_size) (range1 (int (length ns) - pattern_size * 2))) (range2 2 (4 + 1))))"
    using psz start by (auto simp: range1_def range2_def)
  obtain out where out: "detect_sequences cfg ns = Some out"
    using detect_sequences_total by blast
  have fx: "(case (pattern_size, start) of
        (pattern_size, start) \<Rightarrow> find_sequence_pattern cfg ns start pattern_size)
      = Some (Some p)"
    using f by simp
  have "p \<in> set out"
    using collect_patterns_member[OF out[unfolded detect_sequences_def] m fx] .
  moreover have "end_index p < int (length ns)"
    using fit by (simp add: p_def algebra_simps)
  ultimately show ?thesis
    using out ge by (intro exI[of _ out] exI[of _ p] exI[of _ r]) (simp add: p_def)
qed

text \<open>Five notes rising by whole tones: the scan reaches start 0 for pattern size 2.\<close>

theorem scanned_sequence_is_emitted_witness:
  "map_option (map (\<lambda>p. (pattern_type p, start_index p, end_index p, confidence p)))
     (detect_sequences default_detector_config
       (map (\<lambda>p. \<lparr>pitch = p, start_time = 0, end_time = 1, velocity = 65,
                   pitch_name = '''', duration_name = ''quarter'',
                   dynamic_name = ''mf''\<rparr>) [60, 62, 64, 66, 68]))
   = Some [(''sequence'', 0, 3, 1 / 2)]
   \<and> (\<exists>out p r. detect_sequences default_detector_config
          (map (\<lambda>p. \<lparr>pitch = p, start_time = 0, end_time = 1, velocity = 65,
                   pitch_name = '''', duration_name = ''quarter'',
                   dynamic_name = ''mf''\<rparr>) [60, 62, 64, 66, 68]) = Some out
        \<and> p \<in> set out \<and> 2 \<le> r \<and> pattern_type p = ''sequence'' \<and> start_index p = 0
        \<and> end_index p = 0 + r * 2 - 1 \<and> end_index p < 5)"
proof -
  let ?ns = "map (\<lambda>p. \<lparr>pitch = p, start_time = 0, end_time = 1, velocity = 65,
                   pitch_name = '''', duration_name = ''quarter'',
                   dynamic_name = ''mf''\<rparr>) [60, 62, 64, 66, 68]"
  have e: "map_option (map (\<lambda>p. (pattern_type p, start_index p, end_index p, confidence p)))
     (detect_sequences default_detector_config ?ns) = Some [(''sequence'', 0, 3, 1 / 2)]"
    by code_simp
  have h1: "(2::int) \<in> {2, 3, 4}" by simp
  have h2: "(0::int) \<le> 0" by simp
  have h3: "0 < int (length ?ns) - 2 * 2" by simp
  have h4: "intervals_of (map pitch (py_slice ?ns 0 (0 + 2)))
        = intervals_of (map pitch (py_slice ?ns (0 + 2) (0 + 2 + 2)))"
    by (simp add: py_slice_def py_slice_index_def)
  have h5: "get_or (sequence_min_repetitions default_detector_config) 2 \<le> 2"
    by (simp add: default_detector_config_def get_or_def)
  show ?thesis
    using scanned_sequence_is_emitted[OF h1 h2 h3 h4 h5] e by simp
qed

end
